theory Spec2Isabelle
  imports Main "HOL-Library.Sublist"
begin

section \<open>Exceptions of the ssh package\<close>

text \<open>
  \<^verbatim>\<open>ssh/exceptions.py\<close> declares the exception classes; the built-in
  \<^verbatim>\<open>RuntimeError\<close>, \<^verbatim>\<open>TimeoutError\<close>, \<^verbatim>\<open>FileNotFoundError\<close> and
  \<^verbatim>\<open>NotImplementedError\<close> are raised by the code as well. An exception raised by
  \<^verbatim>\<open>paramiko\<close> while opening the transport is \<open>TransportError\<close>.
  \<^verbatim>\<open>TargetSSHConnectionError\<close> is raised at four places of
  \<^verbatim>\<open>establish_target_host_connection\<close>; the constructor argument records
  which one, and for the failed nested \<^verbatim>\<open>ssh\<close> the exit code and the captured
  output that the message is formatted from.
\<close>

datatype target_failure =
    NotFromGatewaySession
  | SshDidNotReachPrompt int string
  | SettingShellVariable
  | TokenNotVerified

datatype error =
    RuntimeError
  | TimeoutError
  | PromptTimeoutError
  | CommandTimeoutError
  | GatewaySSHConnectionError
  | TargetSSHConnectionError target_failure
  | ExitCodeNotFoundError
  | GatewaySessionInactiveError
  | TargetSessionInactiveError
  | InvalidTargetCommandError
  | FileNotFoundError
  | NotImplementedError
  | TransportError

section \<open>CommandFormatter (ssh/formatter.py)\<close>

text \<open>
  Strings are lists of characters with code points below 256. \<open>is_space\<close> is
  \<^verbatim>\<open>str.isspace\<close> on that range and \<open>strip\<close> is \<^verbatim>\<open>str.strip()\<close>.
\<close>

definition is_space :: "char \<Rightarrow> bool" where
  "is_space c = (of_char c \<in> {9::nat, 10, 11, 12, 13, 28, 29, 30, 31, 32, 133, 160})"

definition strip :: "string \<Rightarrow> string" where
  "strip s = rev (dropWhile is_space (rev (dropWhile is_space s)))"

definition regular_command :: "string \<Rightarrow> string \<Rightarrow> bool \<Rightarrow> string" where
  "regular_command command exitcode_delimiter run_as_root =
     (let base_cmd = strip command;
          full_cmd = base_cmd @ ''; echo '' @ exitcode_delimiter @ '':$?''
      in if run_as_root then ''sudo su root -c '' @ full_cmd else full_cmd)"

text \<open>
  \<^verbatim>\<open>re.search(rf"{exitcode_delimiter}:(\d+)", output)\<close>. The delimiter is put into
  the pattern as it is, so it is read as a regular expression. The model reads it
  character by character (\<open>delimiter_matches\<close>): \<^verbatim>\<open>.\<close> matches every character
  but the newline, every other character matches itself. For a delimiter without
  metacharacters (\<open>regex_literal\<close>), as every delimiter of the package is, that is the
  match of the literal text; the metacharacters other than \<^verbatim>\<open>.\<close> are not modelled.
  \<open>marker_here\<close> matches the whole pattern at the start of a string and yields group 1,
  the longest run of digits; \<open>marker_search\<close> tries the positions from the left and
  yields the start of the first match with its group. \<open>delimiter_text d m\<close> says that
  \<open>m\<close> is a text that the delimiter \<open>d\<close> matches.
\<close>

definition is_digit :: "char \<Rightarrow> bool" where
  "is_digit c = (48 \<le> (of_char c :: nat) \<and> (of_char c :: nat) \<le> 57)"

definition regex_literal :: "string \<Rightarrow> bool" where
  "regex_literal d = list_all (\<lambda>c. c \<notin> set (''.^$*+?{}[]|()'' @ [CHR 0x5C])) d"

fun delimiter_matches :: "string \<Rightarrow> string \<Rightarrow> bool" where
  "delimiter_matches [] s = True"
| "delimiter_matches (p # ps) [] = False"
| "delimiter_matches (p # ps) (c # s) =
     ((if p = CHR ''.'' then c \<noteq> CHR 0x0A else c = p) \<and> delimiter_matches ps s)"

definition delimiter_text :: "string \<Rightarrow> string \<Rightarrow> bool" where
  "delimiter_text d m = (length m = length d \<and> delimiter_matches d m)"

definition marker_here :: "string \<Rightarrow> string \<Rightarrow> string option" where
  "marker_here d s =
     (if delimiter_matches d s \<and> prefix '':'' (drop (length d) s)
      then (let ds = takeWhile is_digit (drop (length d + 1) s)
            in if ds = [] then None else Some ds)
      else None)"

fun marker_search :: "string \<Rightarrow> nat \<Rightarrow> string \<Rightarrow> (nat \<times> string) option" where
  "marker_search d i [] = None"
| "marker_search d i (c # s) =
     (case marker_here d (c # s) of
        Some ds \<Rightarrow> Some (i, ds)
      | None \<Rightarrow> marker_search d (Suc i) s)"

text \<open>\<^verbatim>\<open>int(match.group(1))\<close> on a run of decimal digits.\<close>

definition digits_value :: "string \<Rightarrow> nat" where
  "digits_value ds = fold (\<lambda>c n. 10 * n + (of_char c - 48)) ds 0"

definition extract_exit_code :: "string \<Rightarrow> string \<Rightarrow> error + (int \<times> string)" where
  "extract_exit_code output exitcode_delimiter =
     (case marker_search exitcode_delimiter 0 output of
        None \<Rightarrow> Inl ExitCodeNotFoundError
      | Some (start, ds) \<Rightarrow> Inr (int (digits_value ds), take start output))"

definition set_shell_env_variable_raw_command :: "string \<Rightarrow> string \<Rightarrow> string" where
  "set_shell_env_variable_raw_command key v = ''setenv '' @ key @ '' '' @ v"

text \<open>
  The marker line that the remote shell prints for \<^verbatim>\<open>echo <DELIM>:$?\<close> when
  the exit status is \<open>c\<close>: the delimiter, a colon and \<open>c\<close> in decimal.
\<close>

fun decimal :: "nat \<Rightarrow> string" where
  "decimal n = (if n < 10 then [char_of (48 + n)] else decimal (n div 10) @ [char_of (48 + n mod 10)])"

declare decimal.simps [simp del]

definition marker_text :: "string \<Rightarrow> nat \<Rightarrow> string" where
  "marker_text d c = d @ '':'' @ decimal c"

section \<open>InternalExitCode (ssh/base.py)\<close>

definition UNSET :: int where "UNSET = - 9999"
definition EXIT_CODE_NOT_FOUND :: int where "EXIT_CODE_NOT_FOUND = - 1"
definition BREAK_TRIGGERED :: int where "BREAK_TRIGGERED = - 2"

section \<open>Responders (ssh/responders.py)\<close>

text \<open>
  A responder holds a compiled pattern and a response. A compiled pattern is used only
  through \<^verbatim>\<open>search\<close> and its truth value, so it is the predicate
  \<open>matches\<close> on strings; the same holds for the prompt patterns and the
  \<^verbatim>\<open>break_on\<close> patterns that callers supply. The three built-in patterns are
  written out: \<^verbatim>\<open>(?i)password:\<close>, \<^verbatim>\<open>(?i)password\s.*:\<close> and
  \<^verbatim>\<open>(?i)are you sure you want to continue connecting .+yes/no.*\<close>, where
  \<^verbatim>\<open>.\<close> matches every character but the newline.
\<close>

record responder =
  matches :: "string \<Rightarrow> bool"
  response :: string

definition lower :: "char \<Rightarrow> char" where
  "lower c = (if 65 \<le> (of_char c :: nat) \<and> (of_char c :: nat) \<le> 90 then char_of (of_char c + (32::nat)) else c)"

fun search_from :: "(string \<Rightarrow> bool) \<Rightarrow> string \<Rightarrow> bool" where
  "search_from p [] = p []"
| "search_from p (c # s) = (p (c # s) \<or> search_from p s)"

definition contains :: "string \<Rightarrow> string \<Rightarrow> bool" where
  "contains sub s = search_from (prefix sub) s"

definition line_of :: "string \<Rightarrow> string" where
  "line_of s = takeWhile (\<lambda>c. c \<noteq> CHR 0x0A) s"

definition sudo_password_prompt :: "string \<Rightarrow> bool" where
  "sudo_password_prompt s = contains ''password:'' (map lower s)"

definition login_password_prompt :: "string \<Rightarrow> bool" where
  "login_password_prompt s =
     search_from (\<lambda>t. prefix ''password'' t \<and>
        (case drop 8 t of [] \<Rightarrow> False
         | c # r \<Rightarrow> is_space c \<and> CHR '':'' \<in> set (line_of r))) (map lower s)"

definition fingerprint_prompt :: "string \<Rightarrow> bool" where
  "fingerprint_prompt s =
     search_from (\<lambda>t. prefix ''are you sure you want to continue connecting '' t \<and>
        (case line_of (drop 45 t) of [] \<Rightarrow> False
         | c # r \<Rightarrow> contains ''yes/no'' r)) (map lower s)"

definition SSH_CONNECTION_YES_NO_FINGERPRINT_RESPONDER :: responder where
  "SSH_CONNECTION_YES_NO_FINGERPRINT_RESPONDER =
     \<lparr>matches = fingerprint_prompt, response = ''yes'' @ [CHR 0x0A]\<rparr>"

definition get_sudo_password_responder :: "string \<Rightarrow> responder" where
  "get_sudo_password_responder password =
     \<lparr>matches = sudo_password_prompt, response = password @ [CHR 0x0A]\<rparr>"

definition get_ssh_login_password_responder :: "string \<Rightarrow> responder" where
  "get_ssh_login_password_responder password =
     \<lparr>matches = login_password_prompt, response = password @ [CHR 0x0A]\<rparr>"

section \<open>SSHConnection (ssh/connection.py)\<close>

text \<open>
  The connection object together with what it talks to. \<open>channel\<close> is \<open>None\<close>
  while \<^verbatim>\<open>self.channel\<close> is \<^verbatim>\<open>None\<close> and \<open>Some closed\<close> afterwards.
  The remote side is a script: \<open>dials\<close> lists the outcomes of the successive
  transport connects (\<open>True\<close> for success), \<open>incoming\<close> what the successive polls of
  the channel (\<^verbatim>\<open>recv_ready\<close> followed by \<^verbatim>\<open>recv\<close>) find: nothing, a
  decoded chunk, or that the peer has closed the channel. \<open>sent\<close> logs the texts written
  to the channel. \<open>clock\<close> counts tenths of a second and advances where the code sleeps;
  timeouts are given in the same unit. \<open>files\<close> lists the local files (path and
  content) that scripts are read from. Printing is not modelled, so the \<^verbatim>\<open>hide\<close> and
  \<^verbatim>\<open>verbose\<close> arguments are left out.
\<close>

datatype event = Idle | Data string | Hangup

record connection =
  channel :: "bool option"
  dials :: "bool list"
  incoming :: "event list"
  sent :: "string list"
  clock :: nat
  files :: "(string \<times> string) list"

text \<open>The text that a list of events delivers.\<close>

fun payload :: "event \<Rightarrow> string" where
  "payload (Data chunk) = chunk"
| "payload Idle = []"
| "payload Hangup = []"

definition delivered :: "event list \<Rightarrow> string" where
  "delivered es = concat (map payload es)"

definition ensure_channel_ready :: "connection \<Rightarrow> error + unit" where
  "ensure_channel_ready c =
     (case channel c of
        None \<Rightarrow> Inl RuntimeError
      | Some closed \<Rightarrow> if closed then Inl RuntimeError else Inr ())"

definition poll :: "connection \<Rightarrow> string option \<times> connection" where
  "poll c =
     (case incoming c of
        [] \<Rightarrow> (None, c)
      | Idle # es \<Rightarrow> (None, c\<lparr>incoming := es\<rparr>)
      | Data chunk # es \<Rightarrow> (Some chunk, c\<lparr>incoming := es\<rparr>)
      | Hangup # es \<Rightarrow> (None, c\<lparr>incoming := es, channel := map_option (\<lambda>_. True) (channel c)\<rparr>))"

definition sleep :: "nat \<Rightarrow> connection \<Rightarrow> connection" where
  "sleep n c = c\<lparr>clock := clock c + n\<rparr>"

definition flush :: "connection \<Rightarrow> (error + string option) \<times> connection" where
  "flush c =
     (case ensure_channel_ready c of
        Inl e \<Rightarrow> (Inl e, c)
      | Inr _ \<Rightarrow> (case poll c of (out, c') \<Rightarrow> (Inr out, c')))"

definition send :: "string \<Rightarrow> nat \<Rightarrow> connection \<Rightarrow> (error + nat) \<times> connection" where
  "send cmd wait c =
     (case ensure_channel_ready c of
        Inl e \<Rightarrow> (Inl e, c)
      | Inr _ \<Rightarrow> (Inr (length cmd + 1), sleep wait (c\<lparr>sent := sent c @ [cmd @ [CHR 0x0A]]\<rparr>)))"

lemma clock_poll: "poll c = (r, c') \<Longrightarrow> clock c' = clock c"
  by (auto simp: poll_def split: list.splits event.splits)

function expect_loop ::
  "(string \<Rightarrow> bool) \<Rightarrow> nat \<Rightarrow> nat \<Rightarrow> string \<Rightarrow> connection \<Rightarrow> (error + string) \<times> connection" where
  "expect_loop pattern timeout start_time output c =
     (if clock c - start_time < timeout then
        (case poll c of
           (Some chunk, c') \<Rightarrow>
             if pattern (output @ chunk) then (Inr (output @ chunk), c')
             else expect_loop pattern timeout start_time (output @ chunk) (sleep 1 c')
         | (None, c') \<Rightarrow> expect_loop pattern timeout start_time output (sleep 1 c'))
      else (Inl TimeoutError, c))"
  by pat_completeness auto
termination
  by (relation "measure (\<lambda>(p, timeout, start_time, out, c). timeout + start_time - clock c)")
     (auto simp: sleep_def dest!: clock_poll [OF sym])

definition expect :: "(string \<Rightarrow> bool) \<Rightarrow> nat \<Rightarrow> connection \<Rightarrow> (error + string) \<times> connection" where
  "expect pattern timeout c =
     (case ensure_channel_ready c of
        Inl e \<Rightarrow> (Inl e, c)
      | Inr _ \<Rightarrow> expect_loop pattern timeout (clock c) [] c)"

text \<open>
  \<^verbatim>\<open>except TimeoutError\<close> also catches the two subclasses declared in
  \<^verbatim>\<open>ssh/exceptions.py\<close>, and \<^verbatim>\<open>except RuntimeError\<close> also catches
  \<^verbatim>\<open>NotImplementedError\<close>.
\<close>

definition is_TimeoutError :: "error \<Rightarrow> bool" where
  "is_TimeoutError e = (e = TimeoutError \<or> e = PromptTimeoutError \<or> e = CommandTimeoutError)"

definition is_RuntimeError :: "error \<Rightarrow> bool" where
  "is_RuntimeError e = (e = RuntimeError \<or> e = NotImplementedError)"

definition connect :: "nat \<Rightarrow> (string \<Rightarrow> bool) \<Rightarrow> connection \<Rightarrow> (error + unit) \<times> connection" where
  "connect shell_prompt_timeout shell_prompt_pattern c =
     (case dials c of
        [] \<Rightarrow> (Inl TransportError, c)
      | ok # ds \<Rightarrow>
          if \<not> ok then (Inl TransportError, c\<lparr>dials := ds\<rparr>)
          else
            (case expect shell_prompt_pattern shell_prompt_timeout
                    (sleep 10 (c\<lparr>dials := ds, channel := Some False\<rparr>)) of
               (Inl e, c') \<Rightarrow> (if is_TimeoutError e then (Inl PromptTimeoutError, c') else (Inl e, c'))
             | (Inr _, c') \<Rightarrow> (Inr (), c')))"

definition close :: "connection \<Rightarrow> connection" where
  "close c = c\<lparr>channel := map_option (\<lambda>_. True) (channel c)\<rparr>"

text \<open>
  The body of the loop of \<^verbatim>\<open>_run_raw\<close>. \<open>append_out\<close> is
  \<^verbatim>\<open>if out: output_chunks.append(out)\<close>; \<open>respond_all\<close> is the loop over the
  responders, each tested against the last chunk as it is at that moment. The list of
  chunks starts as \<^verbatim>\<open>[""]\<close> and never becomes empty.
\<close>

definition append_out :: "string list \<Rightarrow> string option \<Rightarrow> string list" where
  "append_out chunks out =
     (case out of None \<Rightarrow> chunks | Some x \<Rightarrow> if x = [] then chunks else chunks @ [x])"

fun respond_all ::
  "responder list \<Rightarrow> string list \<Rightarrow> connection \<Rightarrow> (error + string list) \<times> connection" where
  "respond_all [] chunks c = (Inr chunks, c)"
| "respond_all (r # rs) chunks c =
     (if matches r (last chunks) then
        (case send (response r) 5 c of
           (Inl e, c1) \<Rightarrow> (Inl e, c1)
         | (Inr _, c1) \<Rightarrow>
             (case flush c1 of
                (Inl e, c2) \<Rightarrow> (Inl e, c2)
              | (Inr out, c2) \<Rightarrow> respond_all rs (append_out chunks out) c2))
      else respond_all rs chunks c)"

datatype flow = Continue | Break

definition exitcode_pattern_search :: "string \<Rightarrow> string \<Rightarrow> bool" where
  "exitcode_pattern_search exitcode_delimiter s = (marker_search exitcode_delimiter 0 s \<noteq> None)"

definition break_on_search :: "(string \<Rightarrow> bool) option \<Rightarrow> string \<Rightarrow> bool" where
  "break_on_search break_on s = (case break_on of None \<Rightarrow> False | Some p \<Rightarrow> p s)"

definition iteration ::
  "string \<Rightarrow> responder list \<Rightarrow> (string \<Rightarrow> bool) option \<Rightarrow> string list \<Rightarrow> int \<Rightarrow> connection
     \<Rightarrow> (error + flow \<times> string list \<times> int) \<times> connection" where
  "iteration exitcode_delimiter responders break_on chunks exit_code c =
     (case poll c of
        (received, c1) \<Rightarrow>
          (let chunks1 = (case received of
                            None \<Rightarrow> chunks
                          | Some chunk \<Rightarrow> butlast chunks @ [last chunks @ chunk])
           in case respond_all responders chunks1 c1 of
                (Inl e, c2) \<Rightarrow> (Inl e, c2)
              | (Inr chunks2, c2) \<Rightarrow>
                  if exitcode_pattern_search exitcode_delimiter (last chunks2)
                  then (Inr (Break, chunks2, exit_code), c2)
                  else if break_on_search break_on (last chunks2)
                  then (Inr (Break, chunks2, BREAK_TRIGGERED), c2)
                  else (Inr (Continue, chunks2, exit_code), sleep 1 c2)))"

lemma clock_send: "send cmd wait c = (r, c') \<Longrightarrow> clock c \<le> clock c'"
  by (auto simp: send_def sleep_def split: sum.splits)

lemma clock_flush: "flush c = (r, c') \<Longrightarrow> clock c' = clock c"
  by (auto simp: flush_def split: sum.splits prod.splits dest: clock_poll)

lemma clock_respond_all: "respond_all rs chunks c = (r, c') \<Longrightarrow> clock c \<le> clock c'"
proof (induction rs arbitrary: chunks c)
  case Nil
  then show ?case by simp
next
  case (Cons x rs)
  show ?case
  proof (cases "matches x (last chunks)")
    case False
    with Cons show ?thesis by simp
  next
    case True
    obtain r1 c1 where s: "send (response x) 5 c = (r1, c1)" by (cases "send (response x) 5 c")
    obtain r2 c2 where f: "flush c1 = (r2, c2)" by (cases "flush c1")
    have le: "clock c \<le> clock c2" using clock_send [OF s] clock_flush [OF f] by simp
    show ?thesis
    proof (cases r1)
      case (Inl e)
      with Cons.prems True s show ?thesis using clock_send [OF s] by simp
    next
      case (Inr n)
      show ?thesis
      proof (cases r2)
        case (Inl e)
        with Cons.prems True s f Inr show ?thesis using le by simp
      next
        case (Inr out)
        with Cons.prems True s f \<open>r1 = Inr n\<close>
        have "respond_all rs (append_out chunks out) c2 = (r, c')" by simp
        from Cons.IH [OF this] le show ?thesis by simp
      qed
    qed
  qed
qed

lemma clock_iteration:
  "iteration d rs b chunks code c = (Inr (Continue, chunks', code'), c') \<Longrightarrow> clock c < clock c'"
proof -
  assume a: "iteration d rs b chunks code c = (Inr (Continue, chunks', code'), c')"
  obtain received c1 where p: "poll c = (received, c1)" by (cases "poll c")
  let ?chunks1 = "case received of None \<Rightarrow> chunks | Some chunk \<Rightarrow> butlast chunks @ [last chunks @ chunk]"
  obtain r2 c2 where r: "respond_all rs ?chunks1 c1 = (r2, c2)"
    by (cases "respond_all rs ?chunks1 c1")
  have "clock c \<le> clock c2" using clock_poll [OF p] clock_respond_all [OF r] by simp
  moreover have "c' = sleep 1 c2"
    using a p r by (auto simp: iteration_def Let_def split: sum.splits if_splits)
  ultimately show ?thesis by (simp add: sleep_def)
qed

function run_loop ::
  "string \<Rightarrow> responder list \<Rightarrow> (string \<Rightarrow> bool) option \<Rightarrow> nat \<Rightarrow> nat \<Rightarrow> string list \<Rightarrow> int
     \<Rightarrow> connection \<Rightarrow> (error + string list \<times> int) \<times> connection" where
  "run_loop exitcode_delimiter responders break_on timeout start_time chunks exit_code c =
     (if clock c - start_time > timeout then (Inl CommandTimeoutError, c)
      else
        (case iteration exitcode_delimiter responders break_on chunks exit_code c of
           (Inl e, c') \<Rightarrow> (Inl e, c')
         | (Inr (Break, chunks', exit_code'), c') \<Rightarrow> (Inr (chunks', exit_code'), c')
         | (Inr (Continue, chunks', exit_code'), c') \<Rightarrow>
             run_loop exitcode_delimiter responders break_on timeout start_time chunks' exit_code' c'))"
  by pat_completeness auto
termination
  by (relation "measure (\<lambda>(d, rs, b, timeout, start_time, chunks, code, c). Suc timeout + start_time - clock c)")
     (auto dest!: clock_iteration [OF sym])

definition run_raw ::
  "string \<Rightarrow> string \<Rightarrow> nat \<Rightarrow> responder list \<Rightarrow> (string \<Rightarrow> bool) option \<Rightarrow> connection
     \<Rightarrow> (error + string \<times> int) \<times> connection" where
  "run_raw formatted_command exitcode_delimiter timeout responders break_on c =
     (case ensure_channel_ready c of
        Inl e \<Rightarrow> (Inl e, c)
      | Inr _ \<Rightarrow>
     (case send formatted_command 0 c of
        (Inl e, c1) \<Rightarrow> (Inl e, c1)
      | (Inr bytes_sent, c1) \<Rightarrow>
     (case flush c1 of
        (Inl e, c2) \<Rightarrow> (Inl e, c2)
      | (Inr _, c2) \<Rightarrow>
     (case run_loop exitcode_delimiter responders break_on timeout (clock c2) [[]] UNSET c2 of
        (Inl e, c3) \<Rightarrow> (Inl e, c3)
      | (Inr (chunks, exit_code), c3) \<Rightarrow>
     (case flush c3 of
        (Inl e, c4) \<Rightarrow> (Inl e, c4)
      | (Inr out, c4) \<Rightarrow>
          (let full_output = concat (append_out chunks out)
           in if exit_code = UNSET then
                (case extract_exit_code full_output exitcode_delimiter of
                   Inl e \<Rightarrow> (Inr (full_output, EXIT_CODE_NOT_FOUND), c4)
                 | Inr (code, cleaned) \<Rightarrow> (Inr (cleaned, code), c4))
              else (Inr (full_output, exit_code), c4)))))))"

text \<open>
  \<^verbatim>\<open>shlex.quote\<close> and the formatting of scripts. \<open>squote\<close> and \<open>dquote\<close>
  are the characters \<^verbatim>\<open>'\<close> and \<^verbatim>\<open>"\<close>.
\<close>

definition squote :: char where "squote = CHR 0x27"
definition dquote :: char where "dquote = CHR 0x22"

definition shlex_safe :: "char \<Rightarrow> bool" where
  "shlex_safe c =
     (let n = (of_char c :: nat)
      in (48 \<le> n \<and> n \<le> 57) \<or> (65 \<le> n \<and> n \<le> 90) \<or> (97 \<le> n \<and> n \<le> 122)
         \<or> c \<in> set ''_@%+=:,./-'')"

definition shlex_quote :: "string \<Rightarrow> string" where
  "shlex_quote s =
     (if s = [] then [squote, squote]
      else if list_all shlex_safe s then s
      else [squote]
           @ concat (map (\<lambda>c. if c = squote then [squote, dquote, squote, dquote, squote] else [c]) s)
           @ [squote])"

fun join :: "string \<Rightarrow> string list \<Rightarrow> string" where
  "join sep [] = []"
| "join sep [x] = x"
| "join sep (x # y # ys) = x @ sep @ join sep (y # ys)"

definition bash_script_from_string :: "string \<Rightarrow> string \<Rightarrow> string list option \<Rightarrow> bool \<Rightarrow> string" where
  "bash_script_from_string script_content exitcode_delimiter args run_as_root =
     (let quoted = map shlex_quote (case args of None \<Rightarrow> [] | Some xs \<Rightarrow> xs);
          joined_args = join '' '' quoted;
          cmd = [squote] @ ''bash -s '' @ joined_args @ [squote] @ '' << '' @ [dquote] @ ''EOF''
                @ [dquote] @ '' ; echo '' @ exitcode_delimiter @ '':$? '' @ [CHR 0x0A]
                @ script_content @ [CHR 0x0A] @ [dquote] @ ''EOF'' @ [dquote] @ [CHR 0x0A]
      in if run_as_root then ''sudo su root -c '' @ cmd else cmd)"

definition bash_script_from_local_file ::
  "(string \<rightharpoonup> string) \<Rightarrow> string \<Rightarrow> string \<Rightarrow> string list option \<Rightarrow> bool \<Rightarrow> error + string" where
  "bash_script_from_local_file fs filepath exitcode_delimiter args run_as_root =
     (case fs filepath of
        None \<Rightarrow> Inl FileNotFoundError
      | Some script_content \<Rightarrow>
          Inr (bash_script_from_string script_content exitcode_delimiter args run_as_root))"

text \<open>
  The \<^verbatim>\<open>run\<close> family of \<^verbatim>\<open>SSHConnection\<close>. A missing list of responders
  (\<^verbatim>\<open>None\<close>) is the empty list.
\<close>

definition run ::
  "string \<Rightarrow> nat \<Rightarrow> responder list \<Rightarrow> (string \<Rightarrow> bool) option \<Rightarrow> string \<Rightarrow> connection
     \<Rightarrow> (error + string \<times> int) \<times> connection" where
  "run command timeout responders break_on exitcode_delimiter c =
     run_raw (regular_command command exitcode_delimiter False) exitcode_delimiter timeout
       responders break_on c"

definition run_as_root ::
  "string \<Rightarrow> string \<Rightarrow> nat \<Rightarrow> responder list \<Rightarrow> (string \<Rightarrow> bool) option \<Rightarrow> string \<Rightarrow> connection
     \<Rightarrow> (error + string \<times> int) \<times> connection" where
  "run_as_root command password timeout responders break_on exitcode_delimiter c =
     run_raw (regular_command command exitcode_delimiter True) exitcode_delimiter timeout
       (get_sudo_password_responder password # responders) break_on c"

definition run_bash_script ::
  "string \<Rightarrow> string list option \<Rightarrow> bool \<Rightarrow> nat \<Rightarrow> responder list \<Rightarrow> (string \<Rightarrow> bool) option
     \<Rightarrow> string \<Rightarrow> connection \<Rightarrow> (error + string \<times> int) \<times> connection" where
  "run_bash_script script args from_file timeout responders break_on exitcode_delimiter c =
     (case (if from_file
            then bash_script_from_local_file (map_of (files c)) script exitcode_delimiter args False
            else Inr (bash_script_from_string script exitcode_delimiter args False)) of
        Inl e \<Rightarrow> (Inl e, c)
      | Inr cmd \<Rightarrow> run_raw cmd exitcode_delimiter timeout responders break_on c)"

definition run_bash_script_as_root ::
  "string \<Rightarrow> string \<Rightarrow> string list option \<Rightarrow> bool \<Rightarrow> nat \<Rightarrow> responder list
     \<Rightarrow> (string \<Rightarrow> bool) option \<Rightarrow> string \<Rightarrow> connection \<Rightarrow> (error + string \<times> int) \<times> connection" where
  "run_bash_script_as_root script password args from_file timeout responders break_on
       exitcode_delimiter c =
     (case (if from_file
            then bash_script_from_local_file (map_of (files c)) script exitcode_delimiter args True
            else Inr (bash_script_from_string script exitcode_delimiter args True)) of
        Inl e \<Rightarrow> (Inl e, c)
      | Inr cmd \<Rightarrow>
          run_raw cmd exitcode_delimiter timeout
            (get_sudo_password_responder password # responders) break_on c)"

section \<open>RecursiveSSHSession (ssh/session.py)\<close>

record SSHConnectionData =
  host :: string
  user :: string
  password :: string
  port :: nat
  internal_host :: "string option"

record session =
  gateway :: connection
  target_data :: SSHConnectionData

definition SSH_TARGET_CONNECTION_EXITCODE :: string where
  "SSH_TARGET_CONNECTION_EXITCODE = ''__SSH_TARGET_CONNECTION_EXITCODE''"
definition TARGET_SESSION_EXITCODE_DELIMITER :: string where
  "TARGET_SESSION_EXITCODE_DELIMITER = ''__TARGET_EXITCODE''"
definition TARGET_SESSION_VAR :: string where
  "TARGET_SESSION_VAR = ''__TARGET_SESSION''"
definition GATEWAY_SESSION_VAR :: string where
  "GATEWAY_SESSION_VAR = ''__GATEWAY_SESSION''"
definition SESSION_VAR_VALUE :: string where
  "SESSION_VAR_VALUE = ''__OK__''"

text \<open>A call of a method of \<^verbatim>\<open>self.gateway\<close>.\<close>

definition on_gateway :: "(connection \<Rightarrow> 'a \<times> connection) \<Rightarrow> session \<Rightarrow> 'a \<times> session" where
  "on_gateway f s = (case f (gateway s) of (r, c) \<Rightarrow> (r, s\<lparr>gateway := c\<rparr>))"

definition verify_env_variable :: "string \<Rightarrow> session \<Rightarrow> (error + unit) \<times> session" where
  "verify_env_variable var_name s =
     (case on_gateway (run (''echo exists: $?'' @ var_name) 100 [] None ''__EXITCODE'') s of
        (Inl e, s1) \<Rightarrow> (Inl e, s1)
      | (Inr (output, _), s1) \<Rightarrow>
          if contains ''exists: 0'' output then (Inl RuntimeError, s1) else (Inr (), s1))"

definition verify_target_session_token :: "session \<Rightarrow> (error + unit) \<times> session" where
  "verify_target_session_token s =
     (case verify_env_variable TARGET_SESSION_VAR s of
        (Inl e, s1) \<Rightarrow>
          if is_RuntimeError e then (Inl TargetSessionInactiveError, s1) else (Inl e, s1)
      | (Inr _, s1) \<Rightarrow> (Inr (), s1))"

definition verify_gateway_session_token :: "session \<Rightarrow> (error + unit) \<times> session" where
  "verify_gateway_session_token s =
     (case verify_env_variable GATEWAY_SESSION_VAR s of
        (Inl e, s1) \<Rightarrow>
          if is_RuntimeError e then (Inl GatewaySessionInactiveError, s1) else (Inl e, s1)
      | (Inr _, s1) \<Rightarrow> (Inr (), s1))"

definition establish_gateway_connection ::
  "(string \<Rightarrow> bool) \<Rightarrow> nat \<Rightarrow> session \<Rightarrow> (error + unit) \<times> session" where
  "establish_gateway_connection shell_prompt_pattern shell_prompt_timeout s =
     (if channel (gateway s) = None \<or> channel (gateway s) = Some True then
        (case on_gateway (connect shell_prompt_timeout shell_prompt_pattern) s of
           (Inl e, s1) \<Rightarrow> (Inl GatewaySSHConnectionError, s1)
         | (Inr _, s1) \<Rightarrow>
             (case on_gateway
                     (run (set_shell_env_variable_raw_command GATEWAY_SESSION_VAR SESSION_VAR_VALUE)
                        100 [] None ''__EXITCODE'') s1 of
                (Inl e, s2) \<Rightarrow> (Inl e, s2)
              | (Inr _, s2) \<Rightarrow> verify_gateway_session_token s2))
      else (Inr (), s))"

definition ssh_command :: "SSHConnectionData \<Rightarrow> string" where
  "ssh_command t = ''ssh '' @ user t @ ''@'' @ host t"

definition establish_target_host_connection ::
  "(string \<Rightarrow> bool) \<Rightarrow> nat \<Rightarrow> session \<Rightarrow> (error + unit) \<times> session" where
  "establish_target_host_connection shell_prompt_pattern shell_prompt_timeout s =
     (case verify_gateway_session_token s of
        (Inl e, s1) \<Rightarrow>
          if is_RuntimeError e then (Inl (TargetSSHConnectionError NotFromGatewaySession), s1)
          else (Inl e, s1)
      | (Inr _, s1) \<Rightarrow>
     (let password_responder = get_ssh_login_password_responder (password (target_data s1));
          add_ssh_to_hostfile_responder = SSH_CONNECTION_YES_NO_FINGERPRINT_RESPONDER;
          cmd = ssh_command (target_data s1)
      in case on_gateway
                (run cmd shell_prompt_timeout [add_ssh_to_hostfile_responder, password_responder]
                   (Some shell_prompt_pattern) SSH_TARGET_CONNECTION_EXITCODE) s1 of
        (Inl e, s2) \<Rightarrow> (Inl e, s2)
      | (Inr (output, exit_code), s2) \<Rightarrow>
          if exit_code \<noteq> BREAK_TRIGGERED
          then (Inl (TargetSSHConnectionError (SshDidNotReachPrompt exit_code output)), s2)
          else
     (case on_gateway
             (run (set_shell_env_variable_raw_command TARGET_SESSION_VAR SESSION_VAR_VALUE)
                100 [] None TARGET_SESSION_EXITCODE_DELIMITER) s2 of
        (Inl e, s3) \<Rightarrow>
          if is_TimeoutError e then (Inl (TargetSSHConnectionError SettingShellVariable), s3)
          else (Inl e, s3)
      | (Inr _, s3) \<Rightarrow>
     (case verify_target_session_token s3 of
        (Inl e, s4) \<Rightarrow>
          if e = TargetSessionInactiveError then (Inl (TargetSSHConnectionError TokenNotVerified), s4)
          else (Inl e, s4)
      | (Inr _, s4) \<Rightarrow> (Inr (), s4)))))"

definition session_connect ::
  "(string \<Rightarrow> bool) \<Rightarrow> (string \<Rightarrow> bool) \<Rightarrow> nat \<Rightarrow> session \<Rightarrow> (error + unit) \<times> session" where
  "session_connect shell_gateway_prompt_pattern shell_target_prompt_pattern shell_prompt_timeout s =
     (case establish_gateway_connection shell_gateway_prompt_pattern shell_prompt_timeout s of
        (Inl e, s1) \<Rightarrow> (Inl e, s1)
      | (Inr _, s1) \<Rightarrow>
          establish_target_host_connection shell_target_prompt_pattern shell_prompt_timeout s1)"

definition run_at_target ::
  "string \<Rightarrow> responder list \<Rightarrow> (string \<Rightarrow> bool) option \<Rightarrow> nat \<Rightarrow> session
     \<Rightarrow> (error + string \<times> int) \<times> session" where
  "run_at_target command responders break_on timeout s =
     (case verify_target_session_token s of
        (Inl e, s1) \<Rightarrow> (Inl e, s1)
      | (Inr _, s1) \<Rightarrow>
          on_gateway (run command timeout responders break_on TARGET_SESSION_EXITCODE_DELIMITER) s1)"

definition run_as_root_at_target ::
  "string \<Rightarrow> string \<Rightarrow> responder list \<Rightarrow> (string \<Rightarrow> bool) option \<Rightarrow> nat \<Rightarrow> session
     \<Rightarrow> (error + string \<times> int) \<times> session" where
  "run_as_root_at_target command passwd responders break_on timeout s =
     (case verify_target_session_token s of
        (Inl e, s1) \<Rightarrow> (Inl e, s1)
      | (Inr _, s1) \<Rightarrow>
          on_gateway (run_as_root command passwd timeout responders break_on
                        TARGET_SESSION_EXITCODE_DELIMITER) s1)"

definition run_bash_script_at_target_as_root ::
  "string \<Rightarrow> string \<Rightarrow> string list option \<Rightarrow> bool \<Rightarrow> nat \<Rightarrow> responder list
     \<Rightarrow> (string \<Rightarrow> bool) option \<Rightarrow> session \<Rightarrow> (error + string \<times> int) \<times> session" where
  "run_bash_script_at_target_as_root script passwd args from_file timeout responders break_on s =
     (case verify_target_session_token s of
        (Inl e, s1) \<Rightarrow> (Inl e, s1)
      | (Inr _, s1) \<Rightarrow>
          on_gateway (run_bash_script_as_root script passwd args from_file timeout responders
                        break_on TARGET_SESSION_EXITCODE_DELIMITER) s1)"

definition exit_target_session :: "session \<Rightarrow> (error + unit) \<times> session" where
  "exit_target_session s =
     (case run_at_target ''exit'' [] None 300 s of
        (Inl e, s1) \<Rightarrow>
          if e = TargetSessionInactiveError then verify_gateway_session_token s1
          else (Inl e, s1)
      | (Inr _, s1) \<Rightarrow> verify_gateway_session_token s1)"

definition session_close :: "session \<Rightarrow> (error + unit) \<times> session" where
  "session_close s =
     (case exit_target_session s of
        (Inl e, s1) \<Rightarrow> (Inl e, s1)
      | (Inr _, s1) \<Rightarrow> (Inr (), s1\<lparr>gateway := close (gateway s1)\<rparr>))"

section \<open>Commands and results (ssh/commands.py)\<close>

text \<open>
  \<open>TargetCommand command responders break_on timeout run_as_root\<close> and
  \<open>TargetBashScript script args from_file responders break_on timeout run_as_root\<close>
  are the two dataclasses; \<open>OtherObject\<close> is any other object that a caller passes in
  the list of commands.
\<close>

datatype target_command =
    TargetCommand string "responder list" "(string \<Rightarrow> bool) option" nat bool
  | TargetBashScript string "string list option" bool "responder list" "(string \<Rightarrow> bool) option" nat bool
  | OtherObject

record TargetExecutionResult =
  success :: bool
  outputs :: "(string \<times> int) list"
  error :: "error option"

section \<open>SerialRecursiveSSHGroup (ssh/group.py)\<close>

text \<open>
  The fields of the group that never change after construction form the record
  \<open>group\<close>; the constructor refuses an empty list of targets. The one field that
  changes, \<^verbatim>\<open>self.session\<close>, is the state that every method takes and returns.
\<close>

record group =
  targets :: "SSHConnectionData list"
  shell_gateway_prompt_pattern :: "string \<Rightarrow> bool"
  shell_target_prompt_pattern :: "string \<Rightarrow> bool"
  shell_prompt_timeout :: nat

definition group_connect :: "group \<Rightarrow> SSHConnectionData \<Rightarrow> session \<Rightarrow> (error + unit) \<times> session" where
  "group_connect g target s =
     session_connect (shell_gateway_prompt_pattern g) (shell_target_prompt_pattern g)
       (shell_prompt_timeout g) (s\<lparr>target_data := target\<rparr>)"

text \<open>
  \<^verbatim>\<open>_run_on_target\<close> and \<^verbatim>\<open>_run_bash_script_on_target\<close>, chosen by the
  class of the command as in the list comprehension of \<^verbatim>\<open>run_target\<close>.
\<close>

fun run_one :: "SSHConnectionData \<Rightarrow> target_command \<Rightarrow> session \<Rightarrow> (error + string \<times> int) \<times> session" where
  "run_one target (TargetCommand cmd rs brk tmo as_root) s =
     (if as_root
      then run_as_root_at_target cmd (password target) rs brk tmo s
      else run_at_target cmd rs brk tmo s)"
| "run_one target (TargetBashScript script args from_file rs brk tmo as_root) s =
     (if as_root
      then run_bash_script_at_target_as_root script (password target) args from_file tmo rs brk s
      else (Inl NotImplementedError, s))"
| "run_one target OtherObject s = (Inl InvalidTargetCommandError, s)"

fun run_commands ::
  "SSHConnectionData \<Rightarrow> target_command list \<Rightarrow> session \<Rightarrow> (error + (string \<times> int) list) \<times> session" where
  "run_commands target [] s = (Inr [], s)"
| "run_commands target (cmd # cmds) s =
     (case run_one target cmd s of
        (Inl e, s1) \<Rightarrow> (Inl e, s1)
      | (Inr out, s1) \<Rightarrow>
          (case run_commands target cmds s1 of
             (Inl e, s2) \<Rightarrow> (Inl e, s2)
           | (Inr outs, s2) \<Rightarrow> (Inr (out # outs), s2)))"

text \<open>
  The body of the \<^verbatim>\<open>try\<close> of \<^verbatim>\<open>run_target\<close>. An exception comes with the
  value that \<^verbatim>\<open>target_outputs\<close> has when it is raised: the empty list until the
  list comprehension has finished, its result afterwards.
\<close>

definition run_target_body ::
  "group \<Rightarrow> SSHConnectionData \<Rightarrow> target_command list \<Rightarrow> session
     \<Rightarrow> (error \<times> (string \<times> int) list + TargetExecutionResult) \<times> session" where
  "run_target_body g target commands s =
     (case group_connect g target s of
        (Inl e, s1) \<Rightarrow> (Inl (e, []), s1)
      | (Inr _, s1) \<Rightarrow>
     (case run_commands target commands s1 of
        (Inl e, s2) \<Rightarrow> (Inl (e, []), s2)
      | (Inr target_outputs, s2) \<Rightarrow>
     (case exit_target_session s2 of
        (Inl e, s3) \<Rightarrow> (Inl (e, target_outputs), s3)
      | (Inr _, s3) \<Rightarrow>
          (Inr \<lparr>success = True, outputs = target_outputs, error = None\<rparr>, s3))))"

text \<open>\<^verbatim>\<open>isinstance(cmd, (TargetCommand, TargetBashScript))\<close>\<close>

fun is_command_or_script :: "target_command \<Rightarrow> bool" where
  "is_command_or_script (TargetCommand cmd rs brk tmo as_root) = True"
| "is_command_or_script (TargetBashScript script args from_file rs brk tmo as_root) = True"
| "is_command_or_script OtherObject = False"

definition run_target ::
  "group \<Rightarrow> SSHConnectionData \<Rightarrow> target_command list \<Rightarrow> session
     \<Rightarrow> (error + TargetExecutionResult) \<times> session" where
  "run_target g target commands s =
     (if \<not> list_all is_command_or_script commands then (Inl InvalidTargetCommandError, s)
      else
        (case run_target_body g target commands s of
           (Inr result, s1) \<Rightarrow> (Inr result, s1)
         | (Inl (e, target_outputs), s1) \<Rightarrow>
             (case e of
                GatewaySSHConnectionError \<Rightarrow> (Inl e, s1)
              | GatewaySessionInactiveError \<Rightarrow> (Inl e, s1)
              | TargetSSHConnectionError _ \<Rightarrow>
                  (Inr \<lparr>success = False, outputs = [], error = Some e\<rparr>, s1)
              | TargetSessionInactiveError \<Rightarrow>
                  (Inr \<lparr>success = False, outputs = target_outputs, error = Some e\<rparr>, s1)
              | CommandTimeoutError \<Rightarrow>
                  (Inr \<lparr>success = False, outputs = target_outputs, error = Some e\<rparr>, s1)
              | ExitCodeNotFoundError \<Rightarrow>
                  (Inr \<lparr>success = False, outputs = target_outputs, error = Some e\<rparr>, s1)
              | _ \<Rightarrow> (Inl e, s1))))"

text \<open>
  \<^verbatim>\<open>results[target.host] = out\<close> on a dictionary, which keeps its keys in the
  order of their first insertion.
\<close>

fun dict_set :: "('k \<times> 'v) list \<Rightarrow> 'k \<Rightarrow> 'v \<Rightarrow> ('k \<times> 'v) list" where
  "dict_set [] k v = [(k, v)]"
| "dict_set ((k', v') # kvs) k v =
     (if k' = k then (k, v) # kvs else (k', v') # dict_set kvs k v)"

text \<open>
  \<^verbatim>\<open>isinstance(out.error, (TargetSessionInactiveError, TargetSSHConnectionError))\<close>
\<close>

definition needs_reset :: "TargetExecutionResult \<Rightarrow> bool" where
  "needs_reset out =
     (case error out of
        Some TargetSessionInactiveError \<Rightarrow> True
      | Some (TargetSSHConnectionError _) \<Rightarrow> True
      | _ \<Rightarrow> False)"

text \<open>
  The loop of \<^verbatim>\<open>run_all_targets\<close> over the targets that are left, with the
  dictionary of the results so far.
\<close>

fun run_all_loop ::
  "group \<Rightarrow> target_command list \<Rightarrow> SSHConnectionData list \<Rightarrow> (string \<times> TargetExecutionResult) list
     \<Rightarrow> session \<Rightarrow> (error + (string \<times> TargetExecutionResult) list) \<times> session" where
  "run_all_loop g commands [] results s = (Inr results, s)"
| "run_all_loop g commands (target # rest) results s =
     (case run_target g target commands s of
        (Inl e, s1) \<Rightarrow> (Inl e, s1)
      | (Inr out, s1) \<Rightarrow>
          (let results' = dict_set results (host target) out
           in if needs_reset out then
                (case session_close s1 of
                   (Inl e, s2) \<Rightarrow> (Inl e, s2)
                 | (Inr _, s2) \<Rightarrow> run_all_loop g commands rest results' s2)
              else run_all_loop g commands rest results' s1))"

definition run_all_targets ::
  "group \<Rightarrow> target_command list \<Rightarrow> session
     \<Rightarrow> (error + (string \<times> TargetExecutionResult) list) \<times> session" where
  "run_all_targets g commands s = run_all_loop g commands (targets g) [] s"

definition group_close :: "session \<Rightarrow> session" where
  "group_close s = s\<lparr>gateway := close (gateway s)\<rparr>"

section \<open>Example batches\<close>

text \<open>
  A gateway with three targets behind it, and what the remote side answers in the
  examples below. \<open>reply d text\<close> are the events of one run whose output is \<open>text\<close>
  followed by the marker for exit status 0; \<open>token_set\<close> and \<open>token_unset\<close> are the
  two answers to a token probe. The session starts as the constructor of the group
  builds it: not connected, with an empty target.
\<close>

definition reply :: "string \<Rightarrow> string \<Rightarrow> event list" where
  "reply d text = [Idle, Data (text @ marker_text d 0 @ [CHR 0x0A]), Idle]"

definition token_set :: "event list" where
  "token_set = reply ''__EXITCODE'' (''exists: 1'' @ [CHR 0x0A])"

definition token_unset :: "event list" where
  "token_unset = reply ''__EXITCODE'' (''exists: 0'' @ [CHR 0x0A])"

definition gateway_ok :: "event list" where
  "gateway_ok = [Data ''cmc$ ''] @ reply ''__EXITCODE'' [] @ token_set"

definition hop_ok :: "event list" where
  "hop_ok = token_set @ [Idle, Data ''guardian# '', Idle]
            @ reply TARGET_SESSION_EXITCODE_DELIMITER [] @ token_set"

definition exit_ok :: "event list" where
  "exit_ok = token_set @ reply TARGET_SESSION_EXITCODE_DELIMITER [] @ token_set"

definition no_route :: string where
  "no_route = ''ssh: connect to host 10.0.0.2 port 22: No route to host'' @ [CHR 0x0A]"

definition hop_refused :: "event \<Rightarrow> event list" where
  "hop_refused last_event =
     token_set @ [Idle, Data (no_route @ marker_text SSH_TARGET_CONNECTION_EXITCODE 255 @ [CHR 0x0A]),
                  last_event]"

definition example_target :: "string \<Rightarrow> SSHConnectionData" where
  "example_target h = \<lparr>host = h, user = ''admin'', password = ''secret'', port = 22,
                        internal_host = None\<rparr>"

definition example_group :: group where
  "example_group =
     \<lparr>targets = [example_target ''10.0.0.1'', example_target ''10.0.0.2'', example_target ''10.0.0.3''],
      shell_gateway_prompt_pattern = contains ''$ '',
      shell_target_prompt_pattern = contains ''# '',
      shell_prompt_timeout = 900\<rparr>"

definition example_session :: "bool list \<Rightarrow> event list \<Rightarrow> session" where
  "example_session ds events =
     \<lparr>gateway = \<lparr>channel = None, dials = ds, incoming = events, sent = [], clock = 0, files = []\<rparr>,
      target_data = \<lparr>host = [], user = [], password = [], port = 22, internal_host = None\<rparr>\<rparr>"

definition succeeded :: TargetExecutionResult where
  "succeeded = \<lparr>success = True, outputs = [], error = None\<rparr>"

definition refused :: TargetExecutionResult where
  "refused = \<lparr>success = False, outputs = [],
              error = Some (TargetSSHConnectionError (SshDidNotReachPrompt 255 no_route))\<rparr>"

section \<open>Facts about the marker search\<close>

lemma delimiter_matches_length: "delimiter_matches d s \<Longrightarrow> length d \<le> length s"
  by (induction d s rule: delimiter_matches.induct) auto

lemma delimiter_matches_append:
  "length m = length d \<Longrightarrow> delimiter_matches d (m @ r) = delimiter_matches d m"
  by (induction d m rule: delimiter_matches.induct) auto

lemma delimiter_matches_take:
  "delimiter_matches d s \<Longrightarrow> delimiter_text d (take (length d) s)"
proof -
  assume a: "delimiter_matches d s"
  from delimiter_matches_length [OF a] have l: "length (take (length d) s) = length d" by simp
  from a have "delimiter_matches d (take (length d) s @ drop (length d) s)" by simp
  then have "delimiter_matches d (take (length d) s)"
    using delimiter_matches_append [OF l] by blast
  with l show ?thesis by (simp add: delimiter_text_def)
qed

lemma delimiter_matches_literal:
  "regex_literal d \<Longrightarrow> delimiter_matches d s = prefix d s"
  by (induction d s rule: delimiter_matches.induct) (auto simp: regex_literal_def)

lemma delimiter_text_literal: "regex_literal d \<Longrightarrow> delimiter_text d m = (m = d)"
  by (auto simp: delimiter_text_def delimiter_matches_literal prefix_def)

lemma marker_here_Some:
  assumes "marker_here d s = Some ds"
  shows "ds \<noteq> [] \<and> list_all is_digit ds \<and>
         (\<exists>m rest. s = m @ '':'' @ ds @ rest \<and> delimiter_text d m
                    \<and> (rest = [] \<or> \<not> is_digit (hd rest)))"
proof -
  from assms have dm: "delimiter_matches d s" and p: "prefix '':'' (drop (length d) s)"
    and ds: "ds = takeWhile is_digit (drop (length d + 1) s)" and ne: "ds \<noteq> []"
    by (auto simp: marker_here_def Let_def split: if_splits)
  let ?m = "take (length d) s"
  from p obtain t where t: "drop (length d) s = '':'' @ t" by (auto simp: prefix_def)
  have s: "s = ?m @ '':'' @ t" using t append_take_drop_id [of "length d" s] by simp
  have "drop (length d + 1) s = drop 1 (drop (length d) s)" by (simp add: add.commute)
  then have t': "drop (length d + 1) s = t" using t by simp
  let ?rest = "dropWhile is_digit t"
  have "t = ds @ ?rest" using ds t' by simp
  moreover have "?rest = [] \<or> \<not> is_digit (hd ?rest)"
    using hd_dropWhile [of is_digit t] by blast
  moreover have "list_all is_digit ds"
    using ds by (simp add: list_all_iff) (meson set_takeWhileD)
  ultimately show ?thesis using ne s delimiter_matches_take [OF dm] by metis
qed

lemma marker_here_intro:
  assumes "delimiter_text d m" "ds \<noteq> []" "list_all is_digit ds" "rest = [] \<or> \<not> is_digit (hd rest)"
  shows "marker_here d (m @ '':'' @ ds @ rest) = Some ds"
proof -
  have l: "length m = length d" and dm: "delimiter_matches d m"
    using assms(1) by (simp_all add: delimiter_text_def)
  have "takeWhile is_digit (ds @ rest) = ds"
  proof (cases rest)
    case Nil
    then show ?thesis using assms(3) by (simp add: list_all_iff)
  next
    case (Cons r rs)
    then have "\<not> is_digit r" using assms(4) by simp
    then show ?thesis using assms(3) Cons
      by (simp add: list_all_iff takeWhile_tail)
  qed
  then show ?thesis
    using assms(2) l dm delimiter_matches_append [OF l, of "'':'' @ ds @ rest"]
    by (simp add: marker_here_def)
qed

lemma marker_search_Some:
  "marker_search d i s = Some (j, ds) \<Longrightarrow>
     i \<le> j \<and> j - i < length s \<and> marker_here d (drop (j - i) s) = Some ds \<and>
     (\<forall>k < j - i. marker_here d (drop k s) = None)"
proof (induction s arbitrary: i)
  case Nil
  then show ?case by simp
next
  case (Cons c s)
  show ?case
  proof (cases "marker_here d (c # s)")
    case (Some es)
    with Cons.prems show ?thesis by simp
  next
    case None
    with Cons.prems have r: "marker_search d (Suc i) s = Some (j, ds)" by simp
    from Cons.IH [OF r] have ih: "Suc i \<le> j" "j - Suc i < length s"
      "marker_here d (drop (j - Suc i) s) = Some ds"
      "\<forall>k < j - Suc i. marker_here d (drop k s) = None" by auto
    have e: "j - i = Suc (j - Suc i)" using ih(1) by simp
    have "\<forall>k < j - i. marker_here d (drop k (c # s)) = None"
    proof (intro allI impI)
      fix k assume k: "k < j - i"
      show "marker_here d (drop k (c # s)) = None"
      proof (cases k)
        case 0
        then show ?thesis using None by simp
      next
        case (Suc k')
        then show ?thesis using ih(4) k e by simp
      qed
    qed
    then show ?thesis using ih e by simp
  qed
qed

lemma marker_search_None:
  "marker_search d i s = None \<Longrightarrow> marker_here d (drop k s) = None"
proof (induction s arbitrary: i k)
  case Nil
  then show ?case by (simp add: marker_here_def)
next
  case (Cons c s)
  from Cons.prems have h: "marker_here d (c # s) = None" and r: "marker_search d (Suc i) s = None"
    by (auto split: option.splits)
  show ?case
  proof (cases k)
    case 0
    then show ?thesis using h by simp
  next
    case (Suc k')
    then show ?thesis using Cons.IH [OF r] by simp
  qed
qed

lemma marker_search_first:
  "marker_here d (drop k s) = Some ds \<Longrightarrow> \<forall>m < k. marker_here d (drop m s) = None \<Longrightarrow>
     marker_search d i s = Some (i + k, ds)"
proof (induction s arbitrary: i k)
  case Nil
  then show ?case by (simp add: marker_here_def)
next
  case (Cons c s)
  show ?case
  proof (cases k)
    case 0
    then show ?thesis using Cons.prems(1) by simp
  next
    case (Suc k')
    then have h: "marker_here d (c # s) = None" using Cons.prems(2) by force
    have a: "marker_here d (drop k' s) = Some ds" using Cons.prems(1) Suc by simp
    have b: "\<forall>m < k'. marker_here d (drop m s) = None"
    proof (intro allI impI)
      fix m assume "m < k'"
      then have "Suc m < k" using Suc by simp
      then have "marker_here d (drop (Suc m) (c # s)) = None" using Cons.prems(2) by blast
      then show "marker_here d (drop m s) = None" by simp
    qed
    show ?thesis using Cons.IH [OF a b, of "Suc i"] h Suc by simp
  qed
qed

lemma digits_value_snoc: "digits_value (ds @ [c]) = 10 * digits_value ds + (of_char c - 48)"
  by (simp add: digits_value_def)

lemma decimal_digits: "decimal n \<noteq> [] \<and> list_all is_digit (decimal n) \<and> digits_value (decimal n) = n"
proof (induction n rule: decimal.induct)
  case (1 n)
  show ?case
  proof (cases "n < 10")
    case True
    then have "decimal n = [char_of (48 + n)]" by (subst decimal.simps) simp
    moreover have "of_char (char_of (48 + n) :: char) = 48 + n" using True by simp
    ultimately show ?thesis using True by (simp add: is_digit_def digits_value_def)
  next
    case False
    then have d: "decimal n = decimal (n div 10) @ [char_of (48 + n mod 10)]"
      by (subst decimal.simps) simp
    have c: "of_char (char_of (48 + n mod 10) :: char) = 48 + n mod 10" by simp
    from "1" False have ih: "list_all is_digit (decimal (n div 10))"
      "digits_value (decimal (n div 10)) = n div 10" by auto
    have "digits_value (decimal n) = n"
      unfolding d digits_value_snoc c using ih(2) by simp
    moreover have "list_all is_digit (decimal n)"
      unfolding d using ih(1) c by (simp add: is_digit_def)
    ultimately show ?thesis using d by simp
  qed
qed

lemma marker_occurs_iff:
  "(\<exists>pre m ds post. delimiter_text d m \<and> ds \<noteq> [] \<and> list_all is_digit ds
        \<and> s = pre @ m @ '':'' @ ds @ post)
     \<longleftrightarrow> marker_search d 0 s \<noteq> None"
proof
  assume "\<exists>pre m ds post. delimiter_text d m \<and> ds \<noteq> [] \<and> list_all is_digit ds
        \<and> s = pre @ m @ '':'' @ ds @ post"
  then obtain pre m ds post where m: "delimiter_text d m" and ds: "ds \<noteq> []" "list_all is_digit ds"
    and s: "s = pre @ m @ '':'' @ ds @ post" by blast
  let ?ds = "takeWhile is_digit (ds @ post)"
  let ?rest = "dropWhile is_digit (ds @ post)"
  from ds obtain x xs where x: "ds = x # xs" "is_digit x" by (cases ds) auto
  have 1: "?ds \<noteq> []" using x by simp
  have 2: "list_all is_digit ?ds" by (simp add: list_all_iff) (meson set_takeWhileD)
  have 3: "?rest = [] \<or> \<not> is_digit (hd ?rest)"
    using hd_dropWhile [of is_digit "ds @ post"] by blast
  have "drop (length pre) s = m @ '':'' @ ?ds @ ?rest" using s by simp
  then have h: "marker_here d (drop (length pre) s) \<noteq> None"
    using marker_here_intro [OF m 1 2 3] by simp
  show "marker_search d 0 s \<noteq> None"
  proof
    assume "marker_search d 0 s = None"
    from marker_search_None [OF this, of "length pre"] h show False by simp
  qed
next
  assume "marker_search d 0 s \<noteq> None"
  then obtain j ds where j: "marker_search d 0 s = Some (j, ds)" by auto
  from marker_search_Some [OF j] have h: "marker_here d (drop j s) = Some ds" by simp
  from marker_here_Some [OF h] obtain m rest where
    r: "ds \<noteq> []" "list_all is_digit ds" "drop j s = m @ '':'' @ ds @ rest" "delimiter_text d m"
    by blast
  have "s = take j s @ m @ '':'' @ ds @ rest"
    using r(3) append_take_drop_id [of j s] by simp
  then show "\<exists>pre m ds post. delimiter_text d m \<and> ds \<noteq> [] \<and> list_all is_digit ds
        \<and> s = pre @ m @ '':'' @ ds @ post"
    using r by blast
qed

lemma marker_occurs_literal:
  assumes "regex_literal d"
  shows "(\<exists>pre ds post. ds \<noteq> [] \<and> list_all is_digit ds \<and> s = pre @ d @ '':'' @ ds @ post)
     \<longleftrightarrow> marker_search d 0 s \<noteq> None"
  unfolding marker_occurs_iff [symmetric] delimiter_text_literal [OF assms] by blast

section \<open>Formatting and decoding\<close>

text \<open>
  C8. Formatting \<^verbatim>\<open>ls /tmp\<close> with delimiter \<^verbatim>\<open>__EXITCODE\<close> and
  \<^verbatim>\<open>run_as_root=False\<close> gives a string that ends with
  \<^verbatim>\<open>; echo __EXITCODE:$?\<close>, and decoding the output
  \<^verbatim>\<open>"file.txt\n__EXITCODE:0\n"\<close> with that delimiter gives exit code 0 and the
  cleaned output \<^verbatim>\<open>"file.txt\n"\<close>.
\<close>

theorem formatter_scenario_ls_tmp:
  "regular_command ''ls /tmp'' ''__EXITCODE'' False = ''ls /tmp; echo __EXITCODE:$?''
   \<and> suffix ''; echo __EXITCODE:$?'' (regular_command ''ls /tmp'' ''__EXITCODE'' False)
   \<and> extract_exit_code (''file.txt'' @ [CHR 0x0A] @ ''__EXITCODE:0'' @ [CHR 0x0A]) ''__EXITCODE''
       = Inr (0, ''file.txt'' @ [CHR 0x0A])"
  by code_simp

text \<open>
  C3, as stated, fails: an output can contain the marker \<open>D:c\<close> and decode to another
  code, because the decoder takes the first match of the pattern and the longest run
  of digits. The output \<^verbatim>\<open>"__EXITCODE:7\n__EXITCODE:0"\<close> contains the marker
  \<^verbatim>\<open>__EXITCODE:0\<close> and decodes to 7.
\<close>

theorem extract_exit_code_earlier_marker_counterexample:
  "''__EXITCODE:7'' @ [CHR 0x0A] @ ''__EXITCODE:0''
      = (''__EXITCODE:7'' @ [CHR 0x0A]) @ marker_text ''__EXITCODE'' 0 @ []
   \<and> extract_exit_code (''__EXITCODE:7'' @ [CHR 0x0A] @ ''__EXITCODE:0'') ''__EXITCODE''
      = Inr (7, [])"
  by code_simp

text \<open>
  C3, amended. For every delimiter \<open>d\<close> without regular-expression metacharacters and
  every exit code \<open>c\<close> (in particular \<open>0 \<le> c \<le> 255\<close>): the formatted command is the
  stripped command followed by \<^verbatim>\<open>; echo d:$?\<close>, and decoding an output in which the
  marker \<open>d:c\<close> is the first match of the pattern (no match starts before it) and is
  not followed by a further digit yields exactly \<open>c\<close>, with the text before the marker
  as cleaned output.
\<close>

theorem format_then_decode_first_marker:
  assumes "regex_literal d"
    and "\<forall>k < length pre. marker_here d (drop k (pre @ marker_text d c @ post)) = None"
    and "post = [] \<or> \<not> is_digit (hd post)"
  shows "regular_command command d False = strip command @ ''; echo '' @ d @ '':$?''
         \<and> extract_exit_code (pre @ marker_text d c @ post) d = Inr (int c, pre)"
proof -
  let ?out = "pre @ marker_text d c @ post"
  have dd: "decimal c \<noteq> []" "list_all is_digit (decimal c)" "digits_value (decimal c) = c"
    using decimal_digits [of c] by auto
  have dt: "delimiter_text d d" using assms(1) by (simp add: delimiter_text_literal)
  have "drop (length pre) ?out = d @ '':'' @ decimal c @ post"
    by (simp add: marker_text_def)
  then have "marker_here d (drop (length pre) ?out) = Some (decimal c)"
    using marker_here_intro [OF dt dd(1) dd(2) assms(3)] by simp
  from marker_search_first [OF this assms(2), of 0]
  have "marker_search d 0 ?out = Some (length pre, decimal c)" by simp
  then have "extract_exit_code ?out d = Inr (int c, pre)"
    by (simp add: extract_exit_code_def dd(3))
  then show ?thesis by (simp add: regular_command_def)
qed

theorem format_then_decode_first_marker_witness:
  "regular_command ''ls /tmp'' ''__EXITCODE'' False = strip ''ls /tmp'' @ ''; echo '' @ ''__EXITCODE'' @ '':$?''
   \<and> extract_exit_code ((''a.txt'' @ [CHR 0x0A]) @ marker_text ''__EXITCODE'' 255 @ [CHR 0x0A]) ''__EXITCODE''
       = Inr (255, ''a.txt'' @ [CHR 0x0A])"
proof -
  let ?pre = "''a.txt'' @ [CHR 0x0A]"
  let ?out = "?pre @ marker_text ''__EXITCODE'' 255 @ [CHR 0x0A]"
  have a: "regex_literal ''__EXITCODE''" by code_simp
  have "list_all (\<lambda>k. marker_here ''__EXITCODE'' (drop k ?out) = None) [0..<length ?pre]"
    by code_simp
  then have l: "\<forall>k \<in> set [0..<length ?pre]. marker_here ''__EXITCODE'' (drop k ?out) = None"
    unfolding list_all_iff .
  have b: "\<forall>k < length ?pre. marker_here ''__EXITCODE'' (drop k ?out) = None"
  proof (intro allI impI)
    fix k assume "k < length ?pre"
    then have "k \<in> set [0..<length ?pre]" unfolding set_upt atLeastLessThan_iff by simp
    then show "marker_here ''__EXITCODE'' (drop k ?out) = None" by (rule bspec [OF l])
  qed
  have c: "[CHR 0x0A] = [] \<or> \<not> is_digit (hd [CHR 0x0A])" by code_simp
  show ?thesis
    using format_then_decode_first_marker [OF a b c, of "''ls /tmp''"] by simp
qed

text \<open>
  C6 says that decoding an output in which the delimiter followed by a colon and digits
  never occurs raises \<^verbatim>\<open>ExitCodeNotFoundError\<close>. The docstring of
  \<^verbatim>\<open>extract_exit_code\<close> calls the delimiter a string prefix and promises the
  exception when the delimiter is not found, but the code puts the delimiter unescaped
  into the pattern. With the delimiter \<^verbatim>\<open>a.c\<close> the output \<^verbatim>\<open>abc:5\<close> does
  not contain \<^verbatim>\<open>a.c:\<close> at all and still decodes to the exit code 5.
\<close>

theorem extract_exit_code_unescaped_delimiter:
  "\<not> contains ''a.c:'' ''abc:5'' \<and> extract_exit_code ''abc:5'' ''a.c'' = Inr (5, [])"
  by code_simp

text \<open>
  For a delimiter without metacharacters the statement holds: when the delimiter
  followed by a colon and digits never occurs in the output,
  \<^verbatim>\<open>extract_exit_code\<close> raises \<^verbatim>\<open>ExitCodeNotFoundError\<close>.
\<close>

lemma extract_exit_code_without_marker:
  assumes "regex_literal d"
    and "\<not> (\<exists>pre ds post. ds \<noteq> [] \<and> list_all is_digit ds \<and> output = pre @ d @ '':'' @ ds @ post)"
  shows "extract_exit_code output d = Inl ExitCodeNotFoundError"
proof (cases "marker_search d 0 output")
  case None
  then show ?thesis by (simp add: extract_exit_code_def)
next
  case (Some p)
  then have "marker_search d 0 output \<noteq> None" by simp
  from marker_occurs_literal [OF assms(1), THEN iffD2, OF this] assms(2)
  show ?thesis by (rule notE [rotated])
qed

lemma extract_exit_code_without_marker_example:
  "extract_exit_code (''file.txt'' @ [CHR 0x0A] @ ''__EXITCODE:'') ''__EXITCODE''
     = Inl ExitCodeNotFoundError"
proof -
  let ?out = "''file.txt'' @ [CHR 0x0A] @ ''__EXITCODE:''"
  have a: "regex_literal ''__EXITCODE''" by code_simp
  have "marker_search ''__EXITCODE'' 0 ?out = None" by code_simp
  then have b: "\<not> (\<exists>pre ds post. ds \<noteq> [] \<and> list_all is_digit ds
        \<and> ?out = pre @ ''__EXITCODE'' @ '':'' @ ds @ post)"
    unfolding marker_occurs_literal [OF a] by simp
  show ?thesis using extract_exit_code_without_marker [OF a b] .
qed

section \<open>Facts about the run loop\<close>

lemma marker_search_embedded:
  assumes "marker_search d 0 s \<noteq> None"
  shows "marker_search d 0 (a @ s @ b) \<noteq> None"
proof -
  from marker_occurs_iff [THEN iffD2, OF assms] obtain pre m ds post where
    h: "delimiter_text d m" "ds \<noteq> []" "list_all is_digit ds" "s = pre @ m @ '':'' @ ds @ post"
    by blast
  have "a @ s @ b = (a @ pre) @ m @ '':'' @ ds @ (post @ b)" using h(4) by simp
  with h(1,2,3) have "\<exists>pre m ds post. delimiter_text d m \<and> ds \<noteq> [] \<and> list_all is_digit ds
      \<and> a @ s @ b = pre @ m @ '':'' @ ds @ post" by blast
  then show ?thesis by (rule marker_occurs_iff [THEN iffD1])
qed

lemma append_out_nonempty: "chunks \<noteq> [] \<Longrightarrow> append_out chunks out \<noteq> []"
  by (simp add: append_out_def split: option.splits)

lemma append_out_concat: "\<exists>tail. concat (append_out chunks out) = concat chunks @ tail"
  by (simp add: append_out_def split: option.splits)

lemma respond_all_nonempty:
  "respond_all rs chunks c = (Inr chunks', c') \<Longrightarrow> chunks \<noteq> [] \<Longrightarrow> chunks' \<noteq> []"
proof (induction rs arbitrary: chunks c)
  case Nil
  then show ?case by simp
next
  case (Cons r rs)
  show ?case
  proof (cases "matches r (last chunks)")
    case False
    with Cons show ?thesis by simp
  next
    case True
    with Cons.prems(1) obtain n c1 out c2 where
      "respond_all rs (append_out chunks out) c2 = (Inr chunks', c')"
      by (auto split: prod.splits sum.splits)
    from Cons.IH [OF this append_out_nonempty [OF Cons.prems(2)]] show ?thesis .
  qed
qed

lemma iteration_cases:
  assumes "iteration d rs b chunks code c = (Inr (fl, chunks', code'), c')"
  shows "(exitcode_pattern_search d (last chunks') \<longrightarrow> fl = Break \<and> code' = code)
       \<and> (\<not> exitcode_pattern_search d (last chunks') \<and> break_on_search b (last chunks')
            \<longrightarrow> fl = Break \<and> code' = BREAK_TRIGGERED)
       \<and> (\<not> exitcode_pattern_search d (last chunks') \<and> \<not> break_on_search b (last chunks')
            \<longrightarrow> fl = Continue \<and> code' = code)"
  using assms
  by (auto simp: iteration_def Let_def split: prod.splits sum.splits if_splits)

lemma iteration_nonempty:
  assumes "iteration d rs b chunks code c = (Inr (fl, chunks', code'), c')" and "chunks \<noteq> []"
  shows "chunks' \<noteq> []"
proof -
  obtain received c1 where p: "poll c = (received, c1)" by (cases "poll c")
  let ?chunks1 = "case received of None \<Rightarrow> chunks | Some chunk \<Rightarrow> butlast chunks @ [last chunks @ chunk]"
  from assms(1) p obtain c2 where r: "respond_all rs ?chunks1 c1 = (Inr chunks', c2)"
    by (auto simp: iteration_def Let_def split: prod.splits sum.splits if_splits)
  have "?chunks1 \<noteq> []" using assms(2) by (cases received) auto
  from respond_all_nonempty [OF r this] show ?thesis .
qed

declare run_loop.simps [simp del]

lemma run_loop_result:
  "run_loop d rs b t st chunks code c = (Inr (chunks', code'), c') \<Longrightarrow> chunks \<noteq> [] \<Longrightarrow>
     chunks' \<noteq> [] \<and>
     ((exitcode_pattern_search d (last chunks') \<and> code' = code)
      \<or> (\<not> exitcode_pattern_search d (last chunks') \<and> break_on_search b (last chunks')
          \<and> code' = BREAK_TRIGGERED))"
proof (induction d rs b t st chunks code c rule: run_loop.induct)
  case (1 d rs b t st chunks code c)
  have nt: "\<not> t < clock c - st"
    using "1.prems"(1) by (subst (asm) run_loop.simps) (auto split: if_splits)
  obtain r c1 where it: "iteration d rs b chunks code c = (r, c1)"
    by (cases "iteration d rs b chunks code c")
  show ?case
  proof (cases r)
    case (Inl e)
    with "1.prems"(1) nt it show ?thesis by (subst (asm) run_loop.simps) simp
  next
    case (Inr x)
    obtain fl chunks1 code1 where x: "x = (fl, chunks1, code1)" by (cases x)
    note it' = it [unfolded Inr x]
    show ?thesis
    proof (cases fl)
      case Break
      with "1.prems"(1) nt it' have "chunks' = chunks1" "code' = code1"
        by (subst (asm) run_loop.simps, simp)+
      then show ?thesis
        using iteration_cases [OF it'] iteration_nonempty [OF it' "1.prems"(2)] Break by auto
    next
      case Continue
      with "1.prems"(1) nt it' have
        rec: "run_loop d rs b t st chunks1 code1 c1 = (Inr (chunks', code'), c')"
        by (subst (asm) run_loop.simps) simp
      have c: "code1 = code" using iteration_cases [OF it'] Continue by auto
      have itS: "(Inr (Continue, chunks1, code1), c1) = iteration d rs b chunks code c"
        using it' Continue by simp
      from "1.IH" [OF nt itS refl refl refl refl rec iteration_nonempty [OF it' "1.prems"(2)]] c
      show ?thesis by simp
    qed
  qed
qed

lemma sentinels_distinct:
  "UNSET \<noteq> BREAK_TRIGGERED" "UNSET \<noteq> EXIT_CODE_NOT_FOUND" "BREAK_TRIGGERED \<noteq> EXIT_CODE_NOT_FOUND"
  "UNSET < 0" "BREAK_TRIGGERED < 0" "EXIT_CODE_NOT_FOUND < 0"
  by (simp_all add: UNSET_def BREAK_TRIGGERED_def EXIT_CODE_NOT_FOUND_def)

lemma run_raw_Inr:
  assumes "run_raw f d t rs b c = (Inr (out, code), c')"
  shows "\<exists>n c1 o2 c2 chunks lc c3 o4.
           send f 0 c = (Inr n, c1) \<and> flush c1 = (Inr o2, c2)
         \<and> run_loop d rs b t (clock c2) [[]] UNSET c2 = (Inr (chunks, lc), c3)
         \<and> flush c3 = (Inr o4, c')
         \<and> (if lc = UNSET then
               (case extract_exit_code (concat (append_out chunks o4)) d of
                  Inl e \<Rightarrow> out = concat (append_out chunks o4) \<and> code = EXIT_CODE_NOT_FOUND
                | Inr (cd, cleaned) \<Rightarrow> out = cleaned \<and> code = cd)
             else out = concat (append_out chunks o4) \<and> code = lc)"
  using assms
  by (auto simp: run_raw_def Let_def split: sum.splits prod.splits if_splits)

lemma extract_exit_code_nonneg: "extract_exit_code full d = Inr (code, cleaned) \<Longrightarrow> 0 \<le> code"
  by (auto simp: extract_exit_code_def split: option.splits)

lemma run_bash_script_Inr:
  "run_bash_script script args from_file t rs b d c = (Inr x, c') \<Longrightarrow>
     \<exists>f'. run_raw f' d t rs b c = (Inr x, c')"
  by (cases from_file; cases "bash_script_from_local_file (map_of (files c)) script d args False")
     (auto simp: run_bash_script_def)

lemma run_bash_script_as_root_Inr:
  "run_bash_script_as_root script pw args from_file t rs b d c = (Inr x, c') \<Longrightarrow>
     \<exists>f'. run_raw f' d t (get_sudo_password_responder pw # rs) b c = (Inr x, c')"
  by (cases from_file; cases "bash_script_from_local_file (map_of (files c)) script d args True")
     (auto simp: run_bash_script_as_root_def)

lemma on_gateway_Inr:
  "on_gateway f s = (r, s') \<Longrightarrow> \<exists>c'. f (gateway s) = (r, c') \<and> s' = s\<lparr>gateway := c'\<rparr>"
  by (auto simp: on_gateway_def split: prod.splits)

lemma target_family_raw:
  assumes "run_at_target cmd rs b t s = (Inr x, s')
          \<or> run_as_root_at_target cmd pw rs b t s = (Inr x, s')
          \<or> run_bash_script_at_target_as_root script pw args from_file t rs b s = (Inr x, s')"
  shows "\<exists>f' rs' c0 c1. run_raw f' TARGET_SESSION_EXITCODE_DELIMITER t rs' b c0 = (Inr x, c1)"
proof -
  obtain r1 s1 where v: "verify_target_session_token s = (r1, s1)"
    by (cases "verify_target_session_token s")
  from assms consider
      (a) "run_at_target cmd rs b t s = (Inr x, s')"
    | (b) "run_as_root_at_target cmd pw rs b t s = (Inr x, s')"
    | (c) "run_bash_script_at_target_as_root script pw args from_file t rs b s = (Inr x, s')"
    by blast
  then show ?thesis
  proof cases
    case a
    then have "on_gateway (run cmd t rs b TARGET_SESSION_EXITCODE_DELIMITER) s1 = (Inr x, s')"
      using v by (cases r1) (auto simp: run_at_target_def)
    from on_gateway_Inr [OF this] show ?thesis unfolding run_def by blast
  next
    case b
    then have "on_gateway (run_as_root cmd pw t rs b TARGET_SESSION_EXITCODE_DELIMITER) s1 = (Inr x, s')"
      using v by (cases r1) (auto simp: run_as_root_at_target_def)
    from on_gateway_Inr [OF this] show ?thesis unfolding run_as_root_def by blast
  next
    case c
    then have "on_gateway (run_bash_script_as_root script pw args from_file t rs b
                 TARGET_SESSION_EXITCODE_DELIMITER) s1 = (Inr x, s')"
      using v by (cases r1) (auto simp: run_bash_script_at_target_as_root_def)
    from on_gateway_Inr [OF this] obtain c' where
      "run_bash_script_as_root script pw args from_file t rs b TARGET_SESSION_EXITCODE_DELIMITER
         (gateway s1) = (Inr x, c')" by blast
    from run_bash_script_as_root_Inr [OF this] show ?thesis by blast
  qed
qed

section \<open>What a run receives\<close>

lemma poll_consumes:
  assumes "poll c = (r, c')"
  shows "\<exists>es. incoming c = es @ incoming c' \<and> length es \<le> 1
            \<and> delivered es = (case r of None \<Rightarrow> [] | Some x \<Rightarrow> x)"
proof (cases "incoming c")
  case Nil
  with assms have "c' = c" "r = None" by (auto simp: poll_def)
  then show ?thesis by (intro exI [of _ "[]"]) (simp add: delivered_def)
next
  case (Cons e es)
  with assms have "incoming c' = es" "(case r of None \<Rightarrow> [] | Some x \<Rightarrow> x) = payload e"
    by (cases e; auto simp: poll_def)+
  with Cons show ?thesis by (intro exI [of _ "[e]"]) (simp add: delivered_def)
qed

lemma flush_consumes:
  assumes "flush c = (r, c')"
  shows "\<exists>es. incoming c = es @ incoming c' \<and> length es \<le> 1
            \<and> (\<forall>out. r = Inr out \<longrightarrow> delivered es = (case out of None \<Rightarrow> [] | Some x \<Rightarrow> x))"
proof (cases "ensure_channel_ready c")
  case (Inl e)
  with assms have "c' = c" "r = Inl e" by (auto simp: flush_def)
  then show ?thesis by (intro exI [of _ "[]"]) simp
next
  case (Inr u)
  obtain out c1 where p: "poll c = (out, c1)" by (cases "poll c")
  with assms Inr have "c' = c1" "r = Inr out" by (auto simp: flush_def)
  with poll_consumes [OF p] show ?thesis by auto
qed

lemma send_incoming: "send cmd w c = (r, c') \<Longrightarrow> incoming c' = incoming c"
  by (auto simp: send_def sleep_def split: sum.splits)

lemma concat_append_out:
  "concat (append_out chunks out) = concat chunks @ (case out of None \<Rightarrow> [] | Some x \<Rightarrow> x)"
  by (simp add: append_out_def split: option.splits)

lemma respond_all_consumes:
  "respond_all rs chunks c = (r, c') \<Longrightarrow>
     \<exists>es. incoming c = es @ incoming c'
        \<and> (\<forall>chunks'. r = Inr chunks' \<longrightarrow> concat chunks' = concat chunks @ delivered es)"
proof (induction rs arbitrary: chunks c)
  case Nil
  then show ?case by (intro exI [of _ "[]"]) (auto simp: delivered_def)
next
  case (Cons x rs)
  show ?case
  proof (cases "matches x (last chunks)")
    case False
    with Cons show ?thesis by simp
  next
    case True
    obtain r1 c1 where s: "send (response x) 5 c = (r1, c1)" by (cases "send (response x) 5 c")
    have i1: "incoming c1 = incoming c" using send_incoming [OF s] .
    show ?thesis
    proof (cases r1)
      case (Inl e1)
      with Cons.prems True s have "c' = c1" "r = Inl e1" by simp_all
      with i1 show ?thesis by (intro exI [of _ "[]"]) simp
    next
      case (Inr n)
      obtain r2 c2 where f: "flush c1 = (r2, c2)" by (cases "flush c1")
      from flush_consumes [OF f] obtain es1 where
        e1: "incoming c1 = es1 @ incoming c2"
            "\<forall>out. r2 = Inr out \<longrightarrow> delivered es1 = (case out of None \<Rightarrow> [] | Some x \<Rightarrow> x)"
        by blast
      show ?thesis
      proof (cases r2)
        case (Inl e2)
        with Cons.prems True s Inr f have "c' = c2" "r = Inl e2" by simp_all
        with i1 e1(1) show ?thesis by (intro exI [of _ es1]) simp
      next
        case (Inr out)
        with Cons.prems True s f \<open>r1 = Inr n\<close>
        have "respond_all rs (append_out chunks out) c2 = (r, c')" by simp
        from Cons.IH [OF this] obtain es2 where
          e2: "incoming c2 = es2 @ incoming c'"
              "\<forall>chunks'. r = Inr chunks' \<longrightarrow>
                 concat chunks' = concat (append_out chunks out) @ delivered es2" by blast
        have "delivered es1 = (case out of None \<Rightarrow> [] | Some x \<Rightarrow> x)" using e1(2) Inr by simp
        then have "\<forall>chunks'. r = Inr chunks' \<longrightarrow>
                 concat chunks' = concat chunks @ delivered (es1 @ es2)"
          using e2(2) by (simp add: concat_append_out delivered_def)
        moreover have "incoming c = (es1 @ es2) @ incoming c'" using i1 e1(1) e2(1) by simp
        ultimately show ?thesis by blast
      qed
    qed
  qed
qed

lemma iteration_consumes:
  assumes "iteration d rs b chunks code c = (r, c')" and "chunks \<noteq> []"
  shows "\<exists>es. incoming c = es @ incoming c'
        \<and> (\<forall>fl chunks' code'. r = Inr (fl, chunks', code') \<longrightarrow>
              concat chunks' = concat chunks @ delivered es)"
proof -
  obtain rcv c1 where p: "poll c = (rcv, c1)" by (cases "poll c")
  let ?chunks1 = "case rcv of None \<Rightarrow> chunks | Some chunk \<Rightarrow> butlast chunks @ [last chunks @ chunk]"
  obtain r2 c2 where ra: "respond_all rs ?chunks1 c1 = (r2, c2)"
    by (cases "respond_all rs ?chunks1 c1")
  from poll_consumes [OF p] obtain es1 where
    e1: "incoming c = es1 @ incoming c1"
        "delivered es1 = (case rcv of None \<Rightarrow> [] | Some x \<Rightarrow> x)" by blast
  from respond_all_consumes [OF ra] obtain es2 where
    e2: "incoming c1 = es2 @ incoming c2"
        "\<forall>chunks'. r2 = Inr chunks' \<longrightarrow> concat chunks' = concat ?chunks1 @ delivered es2" by blast
  have "concat chunks = concat (butlast chunks) @ last chunks"
    using assms(2) by (metis append_butlast_last_id concat.simps(1,2) concat_append append_Nil2)
  then have c1: "concat ?chunks1 = concat chunks @ delivered es1"
    using e1(2) by (cases rcv) simp_all
  have i: "incoming c' = incoming c2"
    using assms(1) p ra by (auto simp: iteration_def Let_def sleep_def split: sum.splits if_splits)
  have "concat chunks' = concat chunks @ delivered (es1 @ es2)"
    if "r = Inr (fl, chunks', code')" for fl chunks' code'
  proof -
    from that assms(1) p ra have "r2 = Inr chunks'"
      by (auto simp: iteration_def Let_def split: sum.splits if_splits)
    with e2(2) c1 show ?thesis by (simp add: delivered_def)
  qed
  moreover have "incoming c = (es1 @ es2) @ incoming c'" using e1(1) e2(1) i by simp
  ultimately show ?thesis by blast
qed

lemma run_loop_consumes:
  "run_loop d rs b t st chunks code c = (r, c') \<Longrightarrow> chunks \<noteq> [] \<Longrightarrow>
     \<exists>es. incoming c = es @ incoming c'
        \<and> (\<forall>chunks' code'. r = Inr (chunks', code') \<longrightarrow>
              concat chunks' = concat chunks @ delivered es)"
proof (induction d rs b t st chunks code c rule: run_loop.induct)
  case (1 d rs b t st chunks code c)
  show ?case
  proof (cases "t < clock c - st")
    case True
    with "1.prems"(1) have "c' = c" "r = Inl CommandTimeoutError"
      by (subst (asm) run_loop.simps, simp)+
    then show ?thesis by (intro exI [of _ "[]"]) simp
  next
    case nt: False
    obtain r1 c1 where it: "iteration d rs b chunks code c = (r1, c1)"
      by (cases "iteration d rs b chunks code c")
    from iteration_consumes [OF it "1.prems"(2)] obtain es1 where
      e1: "incoming c = es1 @ incoming c1"
          "\<forall>fl chunks' code'. r1 = Inr (fl, chunks', code') \<longrightarrow>
              concat chunks' = concat chunks @ delivered es1" by blast
    show ?thesis
    proof (cases r1)
      case (Inl e)
      with "1.prems"(1) nt it have "c' = c1" "r = Inl e"
        by (subst (asm) run_loop.simps, simp)+
      with e1(1) show ?thesis by (intro exI [of _ es1]) simp
    next
      case (Inr x)
      obtain fl chunks1 code1 where x: "x = (fl, chunks1, code1)" by (cases x)
      note it' = it [unfolded Inr x]
      have cc: "concat chunks1 = concat chunks @ delivered es1" using e1(2) Inr x by simp
      show ?thesis
      proof (cases fl)
        case Break
        with "1.prems"(1) nt it' have "c' = c1" "r = Inr (chunks1, code1)"
          by (subst (asm) run_loop.simps, simp)+
        with e1(1) cc show ?thesis by (intro exI [of _ es1]) simp
      next
        case Continue
        with "1.prems"(1) nt it' have
          rec: "run_loop d rs b t st chunks1 code1 c1 = (r, c')"
          by (subst (asm) run_loop.simps) simp
        have itS: "(Inr (Continue, chunks1, code1), c1) = iteration d rs b chunks code c"
          using it' Continue by simp
        from "1.IH" [OF nt itS refl refl refl refl rec iteration_nonempty [OF it' "1.prems"(2)]]
        obtain es2 where e2: "incoming c1 = es2 @ incoming c'"
          "\<forall>chunks' code'. r = Inr (chunks', code') \<longrightarrow>
              concat chunks' = concat chunks1 @ delivered es2" by blast
        have "\<forall>chunks' code'. r = Inr (chunks', code') \<longrightarrow>
              concat chunks' = concat chunks @ delivered (es1 @ es2)"
          using e2(2) cc by (simp add: delivered_def)
        moreover have "incoming c = (es1 @ es2) @ incoming c'" using e1(1) e2(1) by simp
        ultimately show ?thesis by blast
      qed
    qed
  qed
qed

section \<open>Facts about what a run raises and sends\<close>

lemma sent_poll: "poll c = (r, c') \<Longrightarrow> sent c' = sent c"
  by (auto simp: poll_def split: list.splits event.splits)

lemma sent_flush: "flush c = (r, c') \<Longrightarrow> sent c' = sent c"
  by (auto simp: flush_def split: sum.splits prod.splits dest: sent_poll)

lemma flush_error: "flush c = (Inl e, c') \<Longrightarrow> e = RuntimeError"
  by (auto simp: flush_def ensure_channel_ready_def split: sum.splits prod.splits option.splits if_splits)

lemma send_cases:
  "send cmd w c = (r, c') \<Longrightarrow>
     (r = Inl RuntimeError \<and> c' = c) \<or> (\<exists>n. r = Inr n \<and> sent c' = sent c @ [cmd @ [CHR 0x0A]])"
  by (auto simp: send_def sleep_def ensure_channel_ready_def split: sum.splits option.splits if_splits)

lemma respond_all_error: "respond_all rs chunks c = (Inl e, c') \<Longrightarrow> e = RuntimeError"
proof (induction rs arbitrary: chunks c)
  case Nil
  then show ?case by simp
next
  case (Cons r rs)
  show ?case
  proof (cases "matches r (last chunks)")
    case False
    with Cons show ?thesis by simp
  next
    case True
    obtain r1 c1 where s: "send (response r) 5 c = (r1, c1)" by (cases "send (response r) 5 c")
    show ?thesis
    proof (cases r1)
      case (Inl e1)
      with Cons.prems True s send_cases [OF s] show ?thesis by auto
    next
      case (Inr n)
      obtain r2 c2 where f: "flush c1 = (r2, c2)" by (cases "flush c1")
      show ?thesis
      proof (cases r2)
        case (Inl e2)
        with Cons.prems True s Inr f flush_error [of c1 e2 c2] show ?thesis by auto
      next
        case (Inr out)
        with Cons.prems True s f \<open>r1 = Inr n\<close>
        have "respond_all rs (append_out chunks out) c2 = (Inl e, c')" by simp
        from Cons.IH [OF this] show ?thesis .
      qed
    qed
  qed
qed

lemma iteration_error: "iteration d rs b chunks code c = (Inl e, c') \<Longrightarrow> e = RuntimeError"
proof -
  assume a: "iteration d rs b chunks code c = (Inl e, c')"
  obtain received c1 where p: "poll c = (received, c1)" by (cases "poll c")
  let ?chunks1 = "case received of None \<Rightarrow> chunks | Some chunk \<Rightarrow> butlast chunks @ [last chunks @ chunk]"
  from a p have "respond_all rs ?chunks1 c1 = (Inl e, c')"
    by (auto simp: iteration_def Let_def split: sum.splits prod.splits if_splits)
  then show ?thesis by (rule respond_all_error)
qed

lemma iteration_sent: "iteration d [] b chunks code c = (r, c') \<Longrightarrow> sent c' = sent c"
  by (auto simp: iteration_def Let_def sleep_def split: prod.splits if_splits dest: sent_poll)

lemma run_loop_error:
  "run_loop d rs b t st chunks code c = (Inl e, c') \<Longrightarrow> e = RuntimeError \<or> e = CommandTimeoutError"
proof (induction d rs b t st chunks code c rule: run_loop.induct)
  case (1 d rs b t st chunks code c)
  show ?case
  proof (cases "t < clock c - st")
    case True
    with "1.prems" show ?thesis by (subst (asm) run_loop.simps) simp
  next
    case nt: False
    obtain r c1 where it: "iteration d rs b chunks code c = (r, c1)"
      by (cases "iteration d rs b chunks code c")
    show ?thesis
    proof (cases r)
      case (Inl e1)
      with "1.prems" nt it have "e = e1" by (subst (asm) run_loop.simps) simp
      with iteration_error [OF it [unfolded Inl]] show ?thesis by simp
    next
      case (Inr x)
      obtain fl chunks1 code1 where x: "x = (fl, chunks1, code1)" by (cases x)
      note it' = it [unfolded Inr x]
      show ?thesis
      proof (cases fl)
        case Break
        with "1.prems" nt it' show ?thesis by (subst (asm) run_loop.simps) simp
      next
        case Continue
        with "1.prems" nt it' have
          rec: "run_loop d rs b t st chunks1 code1 c1 = (Inl e, c')"
          by (subst (asm) run_loop.simps) simp
        have itS: "(Inr (Continue, chunks1, code1), c1) = iteration d rs b chunks code c"
          using it' Continue by simp
        from "1.IH" [OF nt itS refl refl refl refl rec] show ?thesis .
      qed
    qed
  qed
qed

lemma run_loop_sent:
  "run_loop d [] b t st chunks code c = (r, c') \<Longrightarrow> sent c' = sent c"
proof (induction d "[] :: responder list" b t st chunks code c rule: run_loop.induct)
  case (1 d b t st chunks code c)
  show ?case
  proof (cases "t < clock c - st")
    case True
    with "1.prems" show ?thesis by (subst (asm) run_loop.simps) simp
  next
    case nt: False
    obtain r1 c1 where it: "iteration d [] b chunks code c = (r1, c1)"
      by (cases "iteration d [] b chunks code c")
    have s1: "sent c1 = sent c" using iteration_sent [OF it] .
    show ?thesis
    proof (cases r1)
      case (Inl e1)
      with "1.prems" nt it have "c' = c1" by (subst (asm) run_loop.simps) simp
      with s1 show ?thesis by simp
    next
      case (Inr x)
      obtain fl chunks1 code1 where x: "x = (fl, chunks1, code1)" by (cases x)
      note it' = it [unfolded Inr x]
      show ?thesis
      proof (cases fl)
        case Break
        with "1.prems" nt it' have "c' = c1" by (subst (asm) run_loop.simps) simp
        with s1 show ?thesis by simp
      next
        case Continue
        with "1.prems" nt it' have
          rec: "run_loop d [] b t st chunks1 code1 c1 = (r, c')"
          by (subst (asm) run_loop.simps) simp
        have itS: "(Inr (Continue, chunks1, code1), c1) = iteration d [] b chunks code c"
          using it' Continue by simp
        from "1.hyps" [OF nt itS refl refl refl refl rec] s1 show ?thesis by simp
      qed
    qed
  qed
qed

lemma ensure_channel_ready_error: "ensure_channel_ready c = Inl x \<Longrightarrow> x = RuntimeError"
  by (auto simp: ensure_channel_ready_def split: option.splits if_splits)

lemma send_error: "send f w c = (Inl x, c1) \<Longrightarrow> x = RuntimeError"
  using send_cases [of f w c "Inl x" c1] by auto

lemma run_raw_error:
  assumes "run_raw f d t rs b c = (Inl e, c')"
  shows "e = RuntimeError \<or> e = CommandTimeoutError"
  using assms
  by (auto simp: run_raw_def Let_def split: sum.splits prod.splits if_splits
        dest: ensure_channel_ready_error send_error flush_error run_loop_error)

lemma run_raw_sent:
  assumes "run_raw f d t [] b c = (r, c')"
  shows "sent c' = sent c \<or> sent c' = sent c @ [f @ [CHR 0x0A]]"
proof (cases "ensure_channel_ready c")
  case (Inl e)
  with assms show ?thesis by (simp add: run_raw_def)
next
  case (Inr u)
  obtain r1 c1 where s: "send f 0 c = (r1, c1)" by (cases "send f 0 c")
  show ?thesis
  proof (cases r1)
    case (Inl e1)
    with assms \<open>ensure_channel_ready c = Inr u\<close> s send_cases [OF s] show ?thesis
      by (auto simp: run_raw_def)
  next
    case (Inr n)
    with send_cases [OF s] have s1: "sent c1 = sent c @ [f @ [CHR 0x0A]]" by auto
    obtain r2 c2 where f2: "flush c1 = (r2, c2)" by (cases "flush c1")
    obtain r3 c3 where l: "run_loop d [] b t (clock c2) [[]] UNSET c2 = (r3, c3)"
      by (cases "run_loop d [] b t (clock c2) [[]] UNSET c2")
    obtain r4 c4 where f4: "flush c3 = (r4, c4)" by (cases "flush c3")
    have "sent c2 = sent c1" "sent c3 = sent c2" "sent c4 = sent c3"
      using sent_flush [OF f2] run_loop_sent [OF l] sent_flush [OF f4] by simp_all
    moreover have "c' = c2 \<or> c' = c3 \<or> c' = c4"
      using assms \<open>ensure_channel_ready c = Inr u\<close> s Inr f2 l f4
      by (auto simp: run_raw_def Let_def split: sum.splits prod.splits if_splits)
    ultimately show ?thesis using s1 by auto
  qed
qed

lemma extract_exit_code_Inr:
  assumes "extract_exit_code full d = Inr (code, cleaned)"
  shows "\<exists>m ds rest. full = cleaned @ m @ '':'' @ ds @ rest \<and> delimiter_text d m
           \<and> ds \<noteq> [] \<and> list_all is_digit ds \<and> (rest = [] \<or> \<not> is_digit (hd rest))
           \<and> (\<forall>k < length cleaned. marker_here d (drop k full) = None)
           \<and> code = int (digits_value ds)"
proof -
  from assms obtain start ds where
    ms: "marker_search d 0 full = Some (start, ds)" and c: "code = int (digits_value ds)"
    and cl: "cleaned = take start full"
    by (auto simp: extract_exit_code_def split: option.splits)
  from marker_search_Some [OF ms] have
    lt: "start < length full" and h: "marker_here d (drop start full) = Some ds"
    and first: "\<forall>k < start. marker_here d (drop k full) = None" by simp_all
  from marker_here_Some [OF h] obtain m rest where
    r: "ds \<noteq> []" "list_all is_digit ds" "drop start full = m @ '':'' @ ds @ rest"
       "delimiter_text d m" "rest = [] \<or> \<not> is_digit (hd rest)" by blast
  have "full = cleaned @ m @ '':'' @ ds @ rest"
    using r(3) cl append_take_drop_id [of start full] by simp
  moreover have "length cleaned = start" using cl lt by simp
  ultimately show ?thesis using r c first by blast
qed

lemma digit_char: "is_digit c \<Longrightarrow> char_of (48 + (of_char c - (48::nat))) = c"
  by (simp add: is_digit_def)

lemma decimal_small: "n < 10 \<Longrightarrow> decimal n = [char_of (48 + n)]"
  by (subst decimal.simps) simp

lemma decimal_step: "0 < n \<Longrightarrow> v < 10 \<Longrightarrow> decimal (10 * n + v) = decimal n @ [char_of (48 + v)]"
  by (subst decimal.simps) simp

lemma digits_are_decimal:
  "ds \<noteq> [] \<Longrightarrow> list_all is_digit ds \<Longrightarrow>
     \<exists>zeros. ds = replicate zeros (CHR ''0'') @ decimal (digits_value ds)"
proof (induction ds rule: rev_induct)
  case Nil
  then show ?case by simp
next
  case (snoc c xs)
  from snoc.prems(2) have dc: "is_digit c" and dxs: "list_all is_digit xs" by simp_all
  let ?v = "of_char c - (48::nat)"
  have v: "?v < 10" using dc by (auto simp: is_digit_def)
  have cv: "char_of (48 + ?v) = c" using digit_char [OF dc] .
  have val: "digits_value (xs @ [c]) = 10 * digits_value xs + ?v" by (rule digits_value_snoc)
  show ?case
  proof (cases "xs = []")
    case True
    then have "digits_value (xs @ [c]) = ?v" by (simp add: digits_value_def)
    then have "xs @ [c] = replicate 0 (CHR ''0'') @ decimal (digits_value (xs @ [c]))"
      using True decimal_small [OF v] cv by simp
    then show ?thesis by blast
  next
    case False
    from snoc.IH [OF False dxs] obtain k where
      k: "xs = replicate k (CHR ''0'') @ decimal (digits_value xs)" by blast
    show ?thesis
    proof (cases "digits_value xs = 0")
      case True
      have z: "decimal 0 = [CHR ''0'']" by code_simp
      have "xs = replicate (Suc k) (CHR ''0'')"
        using k True z by (simp add: replicate_append_same)
      moreover have "digits_value (xs @ [c]) = ?v" using val True by simp
      ultimately have "xs @ [c] = replicate (Suc k) (CHR ''0'') @ decimal (digits_value (xs @ [c]))"
        using decimal_small [OF v] cv by simp
      then show ?thesis by blast
    next
      case False
      then have "decimal (10 * digits_value xs + ?v) = decimal (digits_value xs) @ [c]"
        using decimal_step [of "digits_value xs" ?v] v cv by simp
      then have "xs @ [c] = replicate k (CHR ''0'') @ decimal (digits_value (xs @ [c]))"
        using k val by simp
      then show ?thesis by blast
    qed
  qed
qed

lemma run_raw_consumes:
  assumes "run_raw f d t rs b c = (r, c')"
  shows "\<exists>es. incoming c = es @ incoming c'"
proof (cases "ensure_channel_ready c")
  case (Inl e)
  with assms show ?thesis by (simp add: run_raw_def)
next
  case (Inr u)
  obtain r1 c1 where s: "send f 0 c = (r1, c1)" by (cases "send f 0 c")
  obtain r2 c2 where f2: "flush c1 = (r2, c2)" by (cases "flush c1")
  obtain r3 c3 where l: "run_loop d rs b t (clock c2) [[]] UNSET c2 = (r3, c3)"
    by (cases "run_loop d rs b t (clock c2) [[]] UNSET c2")
  obtain r4 c4 where f4: "flush c3 = (r4, c4)" by (cases "flush c3")
  have ne: "[[]] \<noteq> ([] :: string list)" by simp
  from send_incoming [OF s] flush_consumes [OF f2] run_loop_consumes [OF l ne] flush_consumes [OF f4]
  have 1: "incoming c1 = incoming c" and 2: "\<exists>es. incoming c1 = es @ incoming c2"
    and 3: "\<exists>es. incoming c2 = es @ incoming c3" and 4: "\<exists>es. incoming c3 = es @ incoming c4"
    by blast+
  have "c' = c1 \<or> c' = c2 \<or> c' = c3 \<or> c' = c4"
    using assms Inr s f2 l f4
    by (auto simp: run_raw_def Let_def split: sum.splits prod.splits if_splits)
  then show ?thesis using 1 2 3 4 by (metis append.assoc append_Nil)
qed

lemma run_raw_decoded:
  assumes "run_raw f d t rs b c = (Inr (out, code), c')"
  shows "\<exists>first consumed. incoming c = first @ consumed @ incoming c' \<and> length first \<le> 1 \<and>
          ((code = BREAK_TRIGGERED \<and> out = delivered consumed)
           \<or> (0 \<le> code \<and>
               (\<exists>m zeros rest.
                   delivered consumed
                     = out @ m @ '':'' @ replicate zeros (CHR ''0'') @ decimal (nat code) @ rest
                 \<and> delimiter_text d m \<and> (rest = [] \<or> \<not> is_digit (hd rest))
                 \<and> (\<forall>k < length out. marker_here d (drop k (delivered consumed)) = None))))"
proof -
  from run_raw_Inr [OF assms] obtain n c1 o2 c2 chunks lc c3 o4 where
    s: "send f 0 c = (Inr n, c1)" and f2: "flush c1 = (Inr o2, c2)"
    and l: "run_loop d rs b t (clock c2) [[]] UNSET c2 = (Inr (chunks, lc), c3)"
    and f4: "flush c3 = (Inr o4, c')"
    and fin: "if lc = UNSET then
               (case extract_exit_code (concat (append_out chunks o4)) d of
                  Inl e \<Rightarrow> out = concat (append_out chunks o4) \<and> code = EXIT_CODE_NOT_FOUND
                | Inr (cd, cleaned) \<Rightarrow> out = cleaned \<and> code = cd)
             else out = concat (append_out chunks o4) \<and> code = lc"
    by blast
  let ?full = "concat (append_out chunks o4)"
  have ne: "[[]] \<noteq> ([] :: string list)" by simp
  from flush_consumes [OF f2] obtain first where
    e1: "incoming c1 = first @ incoming c2" "length first \<le> 1" by blast
  from run_loop_consumes [OF l ne] obtain es2 where
    e2: "incoming c2 = es2 @ incoming c3" "concat chunks = delivered es2" by auto
  from flush_consumes [OF f4] obtain es3 where
    e3: "incoming c3 = es3 @ incoming c'"
        "delivered es3 = (case o4 of None \<Rightarrow> [] | Some x \<Rightarrow> x)" by auto
  have inc: "incoming c = first @ (es2 @ es3) @ incoming c'"
    using send_incoming [OF s] e1(1) e2(1) e3(1) by simp
  have full: "?full = delivered (es2 @ es3)"
    using e2(2) e3(2) by (simp add: concat_append_out delivered_def)
  from run_loop_result [OF l ne] have nec: "chunks \<noteq> []"
    and alt: "(exitcode_pattern_search d (last chunks) \<and> lc = UNSET)
      \<or> (\<not> exitcode_pattern_search d (last chunks) \<and> break_on_search b (last chunks)
          \<and> lc = BREAK_TRIGGERED)" by simp_all
  from alt have "(code = BREAK_TRIGGERED \<and> out = ?full)
           \<or> (0 \<le> code \<and>
               (\<exists>m zeros rest.
                   ?full = out @ m @ '':'' @ replicate zeros (CHR ''0'') @ decimal (nat code) @ rest
                 \<and> delimiter_text d m \<and> (rest = [] \<or> \<not> is_digit (hd rest))
                 \<and> (\<forall>k < length out. marker_here d (drop k ?full) = None)))"
  proof
    assume a: "exitcode_pattern_search d (last chunks) \<and> lc = UNSET"
    obtain tail where t: "?full = concat chunks @ tail" using append_out_concat by blast
    have "concat chunks = concat (butlast chunks) @ last chunks"
      using nec by (metis append_butlast_last_id concat.simps(1,2) concat_append append_Nil2)
    then have fl: "?full = concat (butlast chunks) @ last chunks @ tail" using t by simp
    have "marker_search d 0 (last chunks) \<noteq> None"
      using a by (simp add: exitcode_pattern_search_def)
    from marker_search_embedded [OF this, of "concat (butlast chunks)" tail]
    have "marker_search d 0 ?full \<noteq> None" using fl by simp
    then obtain cd cleaned where ex: "extract_exit_code ?full d = Inr (cd, cleaned)"
      by (auto simp: extract_exit_code_def)
    with fin a have oc: "out = cleaned" "code = cd" by simp_all
    from extract_exit_code_Inr [OF ex] obtain m ds rest where
      x: "?full = cleaned @ m @ '':'' @ ds @ rest" "delimiter_text d m" "ds \<noteq> []"
         "list_all is_digit ds" "rest = [] \<or> \<not> is_digit (hd rest)"
         "\<forall>k < length cleaned. marker_here d (drop k ?full) = None"
         "cd = int (digits_value ds)" by blast
    from digits_are_decimal [OF x(3,4)] obtain zeros where
      z: "ds = replicate zeros (CHR ''0'') @ decimal (digits_value ds)" by blast
    have "nat code = digits_value ds" "0 \<le> code" using oc(2) x(7) by simp_all
    with x z oc show ?thesis by (metis append.assoc)
  next
    assume a: "\<not> exitcode_pattern_search d (last chunks) \<and> break_on_search b (last chunks)
          \<and> lc = BREAK_TRIGGERED"
    with fin show ?thesis using sentinels_distinct(1) by auto
  qed
  with inc e1(2) full show ?thesis by (intro exI [of _ first] exI [of _ "es2 @ es3"]) simp
qed

lemma verify_target_session_token_consumes:
  assumes "verify_target_session_token s = (r, s1)"
  shows "\<exists>es. incoming (gateway s) = es @ incoming (gateway s1)"
proof -
  let ?f = "regular_command (''echo exists: $?'' @ TARGET_SESSION_VAR) ''__EXITCODE'' False"
  obtain r0 c1 where rr: "run_raw ?f ''__EXITCODE'' 100 [] None (gateway s) = (r0, c1)"
    by (cases "run_raw ?f ''__EXITCODE'' 100 [] None (gateway s)")
  from assms rr have "s1 = s\<lparr>gateway := c1\<rparr>"
    by (auto simp: verify_target_session_token_def verify_env_variable_def on_gateway_def run_def
          split: sum.splits prod.splits if_splits)
  with run_raw_consumes [OF rr] show ?thesis by simp
qed

lemma target_family_run_raw:
  assumes "run_at_target cmd rs b t s = (Inr x, s')
          \<or> run_as_root_at_target cmd pw rs b t s = (Inr x, s')
          \<or> run_bash_script_at_target_as_root script pw args from_file t rs b s = (Inr x, s')"
  shows "\<exists>s1 f' rs'. verify_target_session_token s = (Inr (), s1)
           \<and> run_raw f' TARGET_SESSION_EXITCODE_DELIMITER t rs' b (gateway s1) = (Inr x, gateway s')"
proof -
  obtain r1 s1 where v: "verify_target_session_token s = (r1, s1)"
    by (cases "verify_target_session_token s")
  from assms consider
      (a) "run_at_target cmd rs b t s = (Inr x, s')"
    | (b) "run_as_root_at_target cmd pw rs b t s = (Inr x, s')"
    | (c) "run_bash_script_at_target_as_root script pw args from_file t rs b s = (Inr x, s')"
    by blast
  then show ?thesis
  proof cases
    case a
    then have ok: "r1 = Inr ()"
      and g: "on_gateway (run cmd t rs b TARGET_SESSION_EXITCODE_DELIMITER) s1 = (Inr x, s')"
      using v by (cases r1; auto simp: run_at_target_def)+
    from on_gateway_Inr [OF g] obtain c' where c':
      "run cmd t rs b TARGET_SESSION_EXITCODE_DELIMITER (gateway s1) = (Inr x, c')"
      "s' = s1\<lparr>gateway := c'\<rparr>" by blast
    from c'(1) have "run_raw (regular_command cmd TARGET_SESSION_EXITCODE_DELIMITER False)
        TARGET_SESSION_EXITCODE_DELIMITER t rs b (gateway s1) = (Inr x, gateway s')"
      using c'(2) by (simp add: run_def)
    with v ok show ?thesis by blast
  next
    case b
    then have ok: "r1 = Inr ()"
      and g: "on_gateway (run_as_root cmd pw t rs b TARGET_SESSION_EXITCODE_DELIMITER) s1 = (Inr x, s')"
      using v by (cases r1; auto simp: run_as_root_at_target_def)+
    from on_gateway_Inr [OF g] obtain c' where c':
      "run_as_root cmd pw t rs b TARGET_SESSION_EXITCODE_DELIMITER (gateway s1) = (Inr x, c')"
      "s' = s1\<lparr>gateway := c'\<rparr>" by blast
    from c'(1) have "run_raw (regular_command cmd TARGET_SESSION_EXITCODE_DELIMITER True)
        TARGET_SESSION_EXITCODE_DELIMITER t (get_sudo_password_responder pw # rs) b (gateway s1)
        = (Inr x, gateway s')"
      using c'(2) by (simp add: run_as_root_def)
    with v ok show ?thesis by blast
  next
    case c
    then have ok: "r1 = Inr ()"
      and g: "on_gateway (run_bash_script_as_root script pw args from_file t rs b
                 TARGET_SESSION_EXITCODE_DELIMITER) s1 = (Inr x, s')"
      using v by (cases r1; auto simp: run_bash_script_at_target_as_root_def)+
    from on_gateway_Inr [OF g] obtain c' where c':
      "run_bash_script_as_root script pw args from_file t rs b TARGET_SESSION_EXITCODE_DELIMITER
         (gateway s1) = (Inr x, c')" "s' = s1\<lparr>gateway := c'\<rparr>" by blast
    from run_bash_script_as_root_Inr [OF c'(1)] obtain f' where
      "run_raw f' TARGET_SESSION_EXITCODE_DELIMITER t (get_sudo_password_responder pw # rs) b
         (gateway s1) = (Inr x, gateway s')" using c'(2) by auto
    with v ok show ?thesis by blast
  qed
qed

section \<open>The exit codes that a run returns\<close>

text \<open>
  C10. The exit code that \<^verbatim>\<open>_run_raw\<close> returns is to be a non-negative integer
  decoded from the delimiter marker in the output, or a sentinel. The docstrings call the
  delimiter a ``prefix string'', but \<^verbatim>\<open>_run_raw\<close> and
  \<^verbatim>\<open>extract_exit_code\<close> put it into their patterns unescaped, so a metacharacter in
  it is read as one. Here the delimiter is \<^verbatim>\<open>a.c\<close>, the command prints the line
  \<^verbatim>\<open>abc:5\<close> and ends with status 0, so that the shell prints the marker
  \<^verbatim>\<open>a.c:0\<close>. The call returns 5 with an empty output: a non-negative integer that
  is no sentinel and is not decoded from the delimiter marker, which says 0; the text
  \<^verbatim>\<open>a.c:5\<close> occurs nowhere in what was received.
\<close>

theorem returned_exit_code_not_from_delimiter_marker:
  "run_raw ''echo abc:5; echo a.c:$?'' ''a.c'' 100 [] None
      \<lparr>channel = Some False, dials = [],
       incoming = [Idle, Data ((''abc:5'' @ [CHR 0x0A]) @ marker_text ''a.c'' 0 @ [CHR 0x0A]), Idle],
       sent = [], clock = 0, files = []\<rparr>
     = (Inr ([], 5),
        \<lparr>channel = Some False, dials = [], incoming = [],
         sent = [''echo abc:5; echo a.c:$?'' @ [CHR 0x0A]], clock = 0, files = []\<rparr>)
   \<and> \<not> contains (marker_text ''a.c'' 5) ((''abc:5'' @ [CHR 0x0A]) @ marker_text ''a.c'' 0 @ [CHR 0x0A])
   \<and> contains (marker_text ''a.c'' 0) ((''abc:5'' @ [CHR 0x0A]) @ marker_text ''a.c'' 0 @ [CHR 0x0A])
   \<and> 5 \<noteq> BREAK_TRIGGERED \<and> 5 \<noteq> EXIT_CODE_NOT_FOUND"
  by code_simp

text \<open>
  For every delimiter without regular-expression metacharacters the claim holds. The exit
  code that \<^verbatim>\<open>_run_raw\<close> returns, and with it \<^verbatim>\<open>run\<close>,
  \<^verbatim>\<open>run_as_root\<close>, \<^verbatim>\<open>run_bash_script\<close>, \<^verbatim>\<open>run_bash_script_as_root\<close>
  and the \<^verbatim>\<open>run_at_target\<close> family (whose delimiter is fixed and has none), is a
  non-negative integer decoded from the delimiter marker in the output, or one of the
  sentinels \<open>BREAK_TRIGGERED = -2\<close> and \<open>EXIT_CODE_NOT_FOUND = -1\<close>; it is never
  \<open>UNSET = -9999\<close>, and no sentinel is an exit code of a process, which lies between 0
  and 255. Decoded from the marker in the output means: the events \<open>consumed\<close> that
  the run has taken from the channel after the flush that follows the send deliver a
  text in which the cleaned output \<open>out\<close> is followed by the delimiter, a colon, and
  the decimal digits of the exit code (after leading zeros, if any), not followed by a
  further digit, and in which no match of the pattern starts before the end of \<open>out\<close>.
\<close>

lemma returned_exit_code_is_decoded_or_sentinel:
  assumes "regex_literal d"
    and "R = run_raw f d t rs b c \<or> R = run cmd t rs b d c \<or> R = run_as_root cmd pw t rs b d c
         \<or> R = run_bash_script script args from_file t rs b d c
         \<or> R = run_bash_script_as_root script pw args from_file t rs b d c"
    and "R = (Inr (out, code), c')"
  shows "(\<exists>first consumed. incoming c = first @ consumed @ incoming c' \<and> length first \<le> 1 \<and>
           ((0 \<le> code \<and>
               (\<exists>zeros rest.
                   delivered consumed
                     = out @ d @ '':'' @ replicate zeros (CHR ''0'') @ decimal (nat code) @ rest
                 \<and> (rest = [] \<or> \<not> is_digit (hd rest))
                 \<and> (\<forall>k < length out. marker_here d (drop k (delivered consumed)) = None)))
            \<or> code = BREAK_TRIGGERED \<or> code = EXIT_CODE_NOT_FOUND))
       \<and> code \<noteq> UNSET
       \<and> BREAK_TRIGGERED = - 2 \<and> EXIT_CODE_NOT_FOUND = - 1 \<and> UNSET = - 9999
       \<and> BREAK_TRIGGERED \<notin> {0..255} \<and> EXIT_CODE_NOT_FOUND \<notin> {0..255} \<and> UNSET \<notin> {0..255}
       \<and> (run_at_target cmd rs b t s = (Inr (out2, code2), s')
            \<or> run_as_root_at_target cmd pw rs b t s = (Inr (out2, code2), s')
            \<or> run_bash_script_at_target_as_root script pw args from_file t rs b s
                 = (Inr (out2, code2), s')
           \<longrightarrow> code2 \<noteq> UNSET
             \<and> (\<exists>s1 before first consumed.
                    verify_target_session_token s = (Inr (), s1)
                  \<and> incoming (gateway s) = before @ incoming (gateway s1)
                  \<and> incoming (gateway s1) = first @ consumed @ incoming (gateway s')
                  \<and> length first \<le> 1
                  \<and> ((0 \<le> code2 \<and>
                        (\<exists>zeros rest.
                            delivered consumed
                              = out2 @ TARGET_SESSION_EXITCODE_DELIMITER @ '':''
                                  @ replicate zeros (CHR ''0'') @ decimal (nat code2) @ rest
                          \<and> (rest = [] \<or> \<not> is_digit (hd rest))
                          \<and> (\<forall>k < length out2.
                                 marker_here TARGET_SESSION_EXITCODE_DELIMITER
                                   (drop k (delivered consumed)) = None)))
                      \<or> code2 = BREAK_TRIGGERED \<or> code2 = EXIT_CODE_NOT_FOUND)))"
proof -
  have raw: "\<exists>f' rs'. run_raw f' d t rs' b c = (Inr (out, code), c')"
  proof -
    from assms(2) [unfolded assms(3)] consider
        (a) "(Inr (out, code), c') = run_raw f d t rs b c"
      | (b) "(Inr (out, code), c') = run cmd t rs b d c"
      | (c) "(Inr (out, code), c') = run_as_root cmd pw t rs b d c"
      | (d) "(Inr (out, code), c') = run_bash_script script args from_file t rs b d c"
      | (e) "(Inr (out, code), c') = run_bash_script_as_root script pw args from_file t rs b d c"
      by blast
    then show ?thesis
    proof cases
      case a
      from a [symmetric] show ?thesis by blast
    next
      case b
      from b [symmetric] show ?thesis unfolding run_def by blast
    next
      case c
      from c [symmetric] show ?thesis unfolding run_as_root_def by blast
    next
      case d
      from run_bash_script_Inr [OF d [symmetric]] show ?thesis by blast
    next
      case e
      from run_bash_script_as_root_Inr [OF e [symmetric]] show ?thesis by blast
    qed
  qed
  then obtain f' rs' where r: "run_raw f' d t rs' b c = (Inr (out, code), c')" by blast
  from run_raw_decoded [OF r] obtain first consumed where
    d1: "incoming c = first @ consumed @ incoming c'" "length first \<le> 1"
    and d2: "(code = BREAK_TRIGGERED \<and> out = delivered consumed)
           \<or> (0 \<le> code \<and>
               (\<exists>m zeros rest.
                   delivered consumed
                     = out @ m @ '':'' @ replicate zeros (CHR ''0'') @ decimal (nat code) @ rest
                 \<and> delimiter_text d m \<and> (rest = [] \<or> \<not> is_digit (hd rest))
                 \<and> (\<forall>k < length out. marker_here d (drop k (delivered consumed)) = None)))"
    by blast
  from d2 have 2: "code \<noteq> UNSET" using sentinels_distinct by auto
  from d1 d2 have 1: "\<exists>first consumed. incoming c = first @ consumed @ incoming c' \<and> length first \<le> 1 \<and>
           ((0 \<le> code \<and>
               (\<exists>zeros rest.
                   delivered consumed
                     = out @ d @ '':'' @ replicate zeros (CHR ''0'') @ decimal (nat code) @ rest
                 \<and> (rest = [] \<or> \<not> is_digit (hd rest))
                 \<and> (\<forall>k < length out. marker_here d (drop k (delivered consumed)) = None)))
            \<or> code = BREAK_TRIGGERED \<or> code = EXIT_CODE_NOT_FOUND)"
    unfolding delimiter_text_literal [OF assms(1)] by blast
  have 3: "run_at_target cmd rs b t s = (Inr (out2, code2), s')
            \<or> run_as_root_at_target cmd pw rs b t s = (Inr (out2, code2), s')
            \<or> run_bash_script_at_target_as_root script pw args from_file t rs b s
                 = (Inr (out2, code2), s')
           \<longrightarrow> code2 \<noteq> UNSET
             \<and> (\<exists>s1 before first consumed.
                    verify_target_session_token s = (Inr (), s1)
                  \<and> incoming (gateway s) = before @ incoming (gateway s1)
                  \<and> incoming (gateway s1) = first @ consumed @ incoming (gateway s')
                  \<and> length first \<le> 1
                  \<and> ((0 \<le> code2 \<and>
                        (\<exists>zeros rest.
                            delivered consumed
                              = out2 @ TARGET_SESSION_EXITCODE_DELIMITER @ '':''
                                  @ replicate zeros (CHR ''0'') @ decimal (nat code2) @ rest
                          \<and> (rest = [] \<or> \<not> is_digit (hd rest))
                          \<and> (\<forall>k < length out2.
                                 marker_here TARGET_SESSION_EXITCODE_DELIMITER
                                   (drop k (delivered consumed)) = None)))
                      \<or> code2 = BREAK_TRIGGERED \<or> code2 = EXIT_CODE_NOT_FOUND))"
  proof
    assume h: "run_at_target cmd rs b t s = (Inr (out2, code2), s')
            \<or> run_as_root_at_target cmd pw rs b t s = (Inr (out2, code2), s')
            \<or> run_bash_script_at_target_as_root script pw args from_file t rs b s
                 = (Inr (out2, code2), s')"
    let ?D = TARGET_SESSION_EXITCODE_DELIMITER
    from target_family_run_raw [OF h] obtain s1 f' rs' where
      v: "verify_target_session_token s = (Inr (), s1)"
      and rr: "run_raw f' ?D t rs' b (gateway s1) = (Inr (out2, code2), gateway s')" by blast
    from verify_target_session_token_consumes [OF v] obtain before where
      bf: "incoming (gateway s) = before @ incoming (gateway s1)" by blast
    have lit: "regex_literal ?D" by code_simp
    from run_raw_decoded [OF rr] obtain first consumed where
      e1: "incoming (gateway s1) = first @ consumed @ incoming (gateway s')" "length first \<le> 1"
      and e2: "(code2 = BREAK_TRIGGERED \<and> out2 = delivered consumed)
           \<or> (0 \<le> code2 \<and>
               (\<exists>m zeros rest.
                   delivered consumed
                     = out2 @ m @ '':'' @ replicate zeros (CHR ''0'') @ decimal (nat code2) @ rest
                 \<and> delimiter_text ?D m \<and> (rest = [] \<or> \<not> is_digit (hd rest))
                 \<and> (\<forall>k < length out2. marker_here ?D (drop k (delivered consumed)) = None)))"
      by blast
    from e2 have u: "code2 \<noteq> UNSET" using sentinels_distinct by auto
    from e2 have "(0 \<le> code2 \<and>
                        (\<exists>zeros rest.
                            delivered consumed
                              = out2 @ ?D @ '':''
                                  @ replicate zeros (CHR ''0'') @ decimal (nat code2) @ rest
                          \<and> (rest = [] \<or> \<not> is_digit (hd rest))
                          \<and> (\<forall>k < length out2. marker_here ?D (drop k (delivered consumed)) = None)))
                      \<or> code2 = BREAK_TRIGGERED \<or> code2 = EXIT_CODE_NOT_FOUND"
      unfolding delimiter_text_literal [OF lit] by blast
    with v bf e1 u show "code2 \<noteq> UNSET
             \<and> (\<exists>s1 before first consumed.
                    verify_target_session_token s = (Inr (), s1)
                  \<and> incoming (gateway s) = before @ incoming (gateway s1)
                  \<and> incoming (gateway s1) = first @ consumed @ incoming (gateway s')
                  \<and> length first \<le> 1
                  \<and> ((0 \<le> code2 \<and>
                        (\<exists>zeros rest.
                            delivered consumed
                              = out2 @ ?D @ '':''
                                  @ replicate zeros (CHR ''0'') @ decimal (nat code2) @ rest
                          \<and> (rest = [] \<or> \<not> is_digit (hd rest))
                          \<and> (\<forall>k < length out2. marker_here ?D (drop k (delivered consumed)) = None)))
                      \<or> code2 = BREAK_TRIGGERED \<or> code2 = EXIT_CODE_NOT_FOUND))"
      by blast
  qed
  have 4: "BREAK_TRIGGERED = - 2 \<and> EXIT_CODE_NOT_FOUND = - 1 \<and> UNSET = - 9999
         \<and> BREAK_TRIGGERED \<notin> {0..255} \<and> EXIT_CODE_NOT_FOUND \<notin> {0..255} \<and> UNSET \<notin> {0..255}"
    by (simp add: UNSET_def BREAK_TRIGGERED_def EXIT_CODE_NOT_FOUND_def)
  from 1 2 3 4 show ?thesis by (intro conjI) simp_all
qed

lemma returned_exit_code_is_decoded_or_sentinel_example:
  "run ''ls /nowhere'' 300 [] None ''__EXITCODE''
      \<lparr>channel = Some False, dials = [],
       incoming = [Idle, Data ((''ls: /nowhere: No such file or directory'' @ [CHR 0x0A])
                               @ ''__EXITCODE:2'' @ [CHR 0x0A]), Idle],
       sent = [], clock = 0, files = []\<rparr>
     = (Inr (''ls: /nowhere: No such file or directory'' @ [CHR 0x0A], 2),
        \<lparr>channel = Some False, dials = [], incoming = [],
         sent = [''ls /nowhere; echo __EXITCODE:$?'' @ [CHR 0x0A]], clock = 0, files = []\<rparr>)
   \<and> (\<exists>first consumed zeros rest.
         [Idle, Data ((''ls: /nowhere: No such file or directory'' @ [CHR 0x0A])
                      @ ''__EXITCODE:2'' @ [CHR 0x0A]), Idle] = first @ consumed @ []
       \<and> delivered consumed
           = (''ls: /nowhere: No such file or directory'' @ [CHR 0x0A]) @ ''__EXITCODE'' @ '':''
               @ replicate zeros (CHR ''0'') @ decimal (nat 2) @ rest)"
proof -
  let ?out = "''ls: /nowhere: No such file or directory'' @ [CHR 0x0A]"
  let ?events = "[Idle, Data (?out @ ''__EXITCODE:2'' @ [CHR 0x0A]), Idle]"
  let ?c = "\<lparr>channel = Some False, dials = [], incoming = ?events,
       sent = [], clock = 0, files = []\<rparr>"
  let ?c' = "\<lparr>channel = Some False, dials = [], incoming = [],
         sent = [''ls /nowhere; echo __EXITCODE:$?'' @ [CHR 0x0A]], clock = 0, files = []\<rparr>"
  let ?R = "run ''ls /nowhere'' 300 [] None ''__EXITCODE'' ?c"
  have r: "?R = (Inr (?out, 2), ?c')" by code_simp
  have d: "?R = run_raw f ''__EXITCODE'' 300 [] None ?c
         \<or> ?R = run ''ls /nowhere'' 300 [] None ''__EXITCODE'' ?c
         \<or> ?R = run_as_root ''ls /nowhere'' pw 300 [] None ''__EXITCODE'' ?c
         \<or> ?R = run_bash_script script args from_file 300 [] None ''__EXITCODE'' ?c
         \<or> ?R = run_bash_script_as_root script pw args from_file 300 [] None ''__EXITCODE'' ?c"
    for f pw script args from_file
    by (rule disjI2, rule disjI1, rule refl)
  have w: "\<exists>first consumed. I = first @ consumed @ I' \<and> length first \<le> 1 \<and>
           ((0 \<le> code \<and> (\<exists>zeros rest. D consumed = out @ m @ '':'' @ replicate zeros z @ dec @ rest
                 \<and> P rest consumed))
            \<or> code = B \<or> code = E) \<Longrightarrow> code \<noteq> B \<Longrightarrow> code \<noteq> E \<Longrightarrow>
         \<exists>first consumed zeros rest. I = first @ consumed @ I'
           \<and> D consumed = out @ m @ '':'' @ replicate zeros z @ dec @ rest"
    for I I' :: "event list" and code B E :: int and D P out m z dec
    by blast
  have lit: "regex_literal ''__EXITCODE''" by code_simp
  have i: "incoming ?c = ?events" "incoming ?c' = []" by simp_all
  have n: "(2::int) \<noteq> BREAK_TRIGGERED" "(2::int) \<noteq> EXIT_CODE_NOT_FOUND" by code_simp+
  from returned_exit_code_is_decoded_or_sentinel [OF lit d r, THEN conjunct1, unfolded i]
  have "\<exists>first consumed zeros rest. ?events = first @ consumed @ []
       \<and> delivered consumed
           = ?out @ ''__EXITCODE'' @ '':'' @ replicate zeros (CHR ''0'') @ decimal (nat 2) @ rest"
    by (rule w [OF _ n])
  with r show ?thesis by (rule conjI)
qed

section \<open>The run loop tests the exit marker before the break pattern\<close>

text \<open>
  C9, as stated, fails: the two patterns are tested on the last chunk only, and a
  responder that fires starts a new chunk. Here the first text received holds the
  marker \<^verbatim>\<open>__EXITCODE:0\<close> and a password prompt; the responder answers, the flush
  after its answer brings the shell prompt as a new chunk, and in that same iteration
  the marker is not found in the new chunk while the break pattern is. The accumulated
  output satisfies both patterns and decodes to exit code 0, but the call returns the
  break sentinel.
\<close>

theorem break_sentinel_despite_exit_marker_counterexample:
  "run_raw ''sudo true; echo __EXITCODE:$?'' ''__EXITCODE'' 100
      [get_sudo_password_responder ''pw''] (Some (contains ''$ ''))
      \<lparr>channel = Some False, dials = [],
       incoming = [Idle, Data (''__EXITCODE:0'' @ [CHR 0x0A] @ ''Password:''),
                   Data ''user@host:~$ '', Idle],
       sent = [], clock = 0, files = []\<rparr>
     = (Inr ((''__EXITCODE:0'' @ [CHR 0x0A] @ ''Password:'') @ ''user@host:~$ '', BREAK_TRIGGERED),
        \<lparr>channel = Some False, dials = [], incoming = [],
         sent = [''sudo true; echo __EXITCODE:$?'' @ [CHR 0x0A], ''pw'' @ [CHR 0x0A] @ [CHR 0x0A]],
         clock = 5, files = []\<rparr>)
   \<and> iteration ''__EXITCODE'' [get_sudo_password_responder ''pw''] (Some (contains ''$ '')) [[]] UNSET
      \<lparr>channel = Some False, dials = [],
       incoming = [Data (''__EXITCODE:0'' @ [CHR 0x0A] @ ''Password:''), Data ''user@host:~$ '', Idle],
       sent = [''sudo true; echo __EXITCODE:$?'' @ [CHR 0x0A]], clock = 0, files = []\<rparr>
     = (Inr (Break, [''__EXITCODE:0'' @ [CHR 0x0A] @ ''Password:'', ''user@host:~$ ''], BREAK_TRIGGERED),
        \<lparr>channel = Some False, dials = [], incoming = [Idle],
         sent = [''sudo true; echo __EXITCODE:$?'' @ [CHR 0x0A], ''pw'' @ [CHR 0x0A] @ [CHR 0x0A]],
         clock = 5, files = []\<rparr>)
   \<and> exitcode_pattern_search ''__EXITCODE''
        ((''__EXITCODE:0'' @ [CHR 0x0A] @ ''Password:'') @ ''user@host:~$ '')
   \<and> break_on_search (Some (contains ''$ ''))
        ((''__EXITCODE:0'' @ [CHR 0x0A] @ ''Password:'') @ ''user@host:~$ '')
   \<and> extract_exit_code ((''__EXITCODE:0'' @ [CHR 0x0A] @ ''Password:'') @ ''user@host:~$ '')
        ''__EXITCODE'' = Inr (0, [])"
  by code_simp

text \<open>
  C9, amended. In each iteration of the loop of \<^verbatim>\<open>_run_raw\<close> the exit-marker
  pattern is tested before the early-break pattern, both on the last chunk of the
  output (\<^verbatim>\<open>output_chunks[-1]\<close>, the text received since the last answer of a
  responder), not on the whole accumulated output: when the marker matches, the loop
  ends with the exit code untouched, whatever the break pattern says, and the break
  sentinel is assigned only when the marker does not match and the break pattern does.
  So, for a delimiter without metacharacters and a call whose send, flush, loop and
  final flush return: if the last chunk at the end of the loop matches the marker (also
  when it matches the break pattern too), the call returns the non-negative exit code
  decoded from the first marker of the whole output, with the text before it; otherwise
  the last chunk matches the break pattern and the call returns the break sentinel
  with the whole output.
\<close>

theorem exit_marker_tested_before_break_pattern:
  assumes "regex_literal d"
    and "send f 0 c = (Inr n, c1)" and "flush c1 = (Inr o2, c2)"
    and "run_loop d rs b t (clock c2) [[]] UNSET c2 = (Inr (chunks, lc), c3)"
    and "flush c3 = (Inr o4, c4)"
  shows "(iteration d rs b chunks0 code0 c0 = (Inr (fl, chunks1, code1), c0') \<longrightarrow>
            (exitcode_pattern_search d (last chunks1) \<longrightarrow> fl = Break \<and> code1 = code0)
          \<and> (code1 \<noteq> code0 \<longrightarrow> code1 = BREAK_TRIGGERED
                \<and> break_on_search b (last chunks1) \<and> \<not> exitcode_pattern_search d (last chunks1)))
       \<and> (exitcode_pattern_search d (last chunks) \<longrightarrow>
            (\<exists>out code zeros rest.
                run_raw f d t rs b c = (Inr (out, code), c4) \<and> 0 \<le> code
              \<and> concat (append_out chunks o4)
                  = out @ d @ '':'' @ replicate zeros (CHR ''0'') @ decimal (nat code) @ rest
              \<and> (rest = [] \<or> \<not> is_digit (hd rest))
              \<and> (\<forall>k < length out. marker_here d (drop k (concat (append_out chunks o4))) = None)))
       \<and> (\<not> exitcode_pattern_search d (last chunks) \<longrightarrow>
            break_on_search b (last chunks)
          \<and> run_raw f d t rs b c = (Inr (concat (append_out chunks o4), BREAK_TRIGGERED), c4))"
proof (intro conjI impI)
  assume it: "iteration d rs b chunks0 code0 c0 = (Inr (fl, chunks1, code1), c0')"
  {
    assume "exitcode_pattern_search d (last chunks1)"
    then show "fl = Break" "code1 = code0" using iteration_cases [OF it] by simp_all
  }
  {
    assume "code1 \<noteq> code0"
    then show "code1 = BREAK_TRIGGERED" "break_on_search b (last chunks1)"
      "\<not> exitcode_pattern_search d (last chunks1)"
      using iteration_cases [OF it] by auto
  }
next
  let ?full = "concat (append_out chunks o4)"
  have ready: "ensure_channel_ready c = Inr ()"
    using assms(2) by (cases "ensure_channel_ready c") (auto simp: send_def)
  have raw: "run_raw f d t rs b c =
      (if lc = UNSET then
         (case extract_exit_code ?full d of
            Inl e \<Rightarrow> (Inr (?full, EXIT_CODE_NOT_FOUND), c4)
          | Inr (code, cleaned) \<Rightarrow> (Inr (cleaned, code), c4))
       else (Inr (?full, lc), c4))"
    using ready assms(2-5) by (simp add: run_raw_def Let_def)
  have ne: "[[]] \<noteq> ([] :: string list)" by simp
  from run_loop_result [OF assms(4) ne] have nec: "chunks \<noteq> []"
    and alt: "(exitcode_pattern_search d (last chunks) \<and> lc = UNSET)
      \<or> (\<not> exitcode_pattern_search d (last chunks) \<and> break_on_search b (last chunks)
          \<and> lc = BREAK_TRIGGERED)" by simp_all
  {
    assume ex: "exitcode_pattern_search d (last chunks)"
    with alt have lc: "lc = UNSET" by blast
    obtain tail where t: "?full = concat chunks @ tail" using append_out_concat by blast
    have "concat chunks = concat (butlast chunks) @ last chunks"
      using nec by (metis append_butlast_last_id concat.simps(1,2) concat_append append_Nil2)
    then have fl: "?full = concat (butlast chunks) @ last chunks @ tail" using t by simp
    have "marker_search d 0 (last chunks) \<noteq> None"
      using ex by (simp add: exitcode_pattern_search_def)
    from marker_search_embedded [OF this, of "concat (butlast chunks)" tail]
    have "marker_search d 0 ?full \<noteq> None" using fl by simp
    then obtain code out where x: "extract_exit_code ?full d = Inr (code, out)"
      by (auto simp: extract_exit_code_def)
    from raw lc x have r: "run_raw f d t rs b c = (Inr (out, code), c4)" by simp
    from extract_exit_code_Inr [OF x] obtain m ds rest where
      y: "?full = out @ m @ '':'' @ ds @ rest" "delimiter_text d m" "ds \<noteq> []"
         "list_all is_digit ds" "rest = [] \<or> \<not> is_digit (hd rest)"
         "\<forall>k < length out. marker_here d (drop k ?full) = None"
         "code = int (digits_value ds)" by blast
    from digits_are_decimal [OF y(3,4)] obtain zeros where
      z: "ds = replicate zeros (CHR ''0'') @ decimal (digits_value ds)" by blast
    have m: "m = d" using y(2) assms(1) by (simp add: delimiter_text_literal)
    have "nat code = digits_value ds" "0 \<le> code" using y(7) by simp_all
    with r y(1,5,6) z m
    show "\<exists>out code zeros rest.
                run_raw f d t rs b c = (Inr (out, code), c4) \<and> 0 \<le> code
              \<and> ?full = out @ d @ '':'' @ replicate zeros (CHR ''0'') @ decimal (nat code) @ rest
              \<and> (rest = [] \<or> \<not> is_digit (hd rest))
              \<and> (\<forall>k < length out. marker_here d (drop k ?full) = None)"
      by (metis append.assoc)
  }
  {
    assume nex: "\<not> exitcode_pattern_search d (last chunks)"
    with alt have br: "break_on_search b (last chunks)" and lc: "lc = BREAK_TRIGGERED" by blast+
    from br show "break_on_search b (last chunks)" .
    from raw lc show "run_raw f d t rs b c = (Inr (?full, BREAK_TRIGGERED), c4)"
      using sentinels_distinct(1) by simp
  }
qed

theorem exit_marker_tested_before_break_pattern_witness:
  "exitcode_pattern_search ''__EXITCODE''
      ((''done'' @ [CHR 0x0A]) @ ''__EXITCODE:3'' @ [CHR 0x0A] @ ''user@host:~$ '')
   \<and> break_on_search (Some (contains ''$ ''))
      ((''done'' @ [CHR 0x0A]) @ ''__EXITCODE:3'' @ [CHR 0x0A] @ ''user@host:~$ '')
   \<and> (\<exists>out code zeros rest.
         run_raw ''echo done; echo __EXITCODE:$?'' ''__EXITCODE'' 100 [] (Some (contains ''$ ''))
           \<lparr>channel = Some False, dials = [],
            incoming = [Idle, Data ((''done'' @ [CHR 0x0A]) @ ''__EXITCODE:3'' @ [CHR 0x0A]
                                     @ ''user@host:~$ ''), Idle],
            sent = [], clock = 0, files = []\<rparr>
         = (Inr (out, code),
            \<lparr>channel = Some False, dials = [], incoming = [],
             sent = [''echo done; echo __EXITCODE:$?'' @ [CHR 0x0A]], clock = 0, files = []\<rparr>)
       \<and> 0 \<le> code
       \<and> (''done'' @ [CHR 0x0A]) @ ''__EXITCODE:3'' @ [CHR 0x0A] @ ''user@host:~$ ''
           = out @ ''__EXITCODE'' @ '':'' @ replicate zeros (CHR ''0'') @ decimal (nat code) @ rest)
   \<and> run_raw ''echo done; echo __EXITCODE:$?'' ''__EXITCODE'' 100 [] (Some (contains ''$ ''))
           \<lparr>channel = Some False, dials = [],
            incoming = [Idle, Data ((''done'' @ [CHR 0x0A]) @ ''__EXITCODE:3'' @ [CHR 0x0A]
                                     @ ''user@host:~$ ''), Idle],
            sent = [], clock = 0, files = []\<rparr>
         = (Inr (''done'' @ [CHR 0x0A], 3),
            \<lparr>channel = Some False, dials = [], incoming = [],
             sent = [''echo done; echo __EXITCODE:$?'' @ [CHR 0x0A]], clock = 0, files = []\<rparr>)"
proof -
  let ?f = "''echo done; echo __EXITCODE:$?''"
  let ?d = "''__EXITCODE''"
  let ?b = "Some (contains ''$ '')"
  let ?X = "(''done'' @ [CHR 0x0A]) @ ''__EXITCODE:3'' @ [CHR 0x0A] @ ''user@host:~$ ''"
  let ?c = "\<lparr>channel = Some False, dials = [], incoming = [Idle, Data ?X, Idle],
            sent = [], clock = 0, files = []\<rparr>"
  let ?c1 = "\<lparr>channel = Some False, dials = [], incoming = [Idle, Data ?X, Idle],
            sent = [?f @ [CHR 0x0A]], clock = 0, files = []\<rparr>"
  let ?c2 = "\<lparr>channel = Some False, dials = [], incoming = [Data ?X, Idle],
            sent = [?f @ [CHR 0x0A]], clock = 0, files = []\<rparr>"
  let ?c3 = "\<lparr>channel = Some False, dials = [], incoming = [Idle],
            sent = [?f @ [CHR 0x0A]], clock = 0, files = []\<rparr>"
  let ?c4 = "\<lparr>channel = Some False, dials = [], incoming = [],
            sent = [?f @ [CHR 0x0A]], clock = 0, files = []\<rparr>"
  have lit: "regex_literal ?d" by code_simp
  have s: "send ?f 0 ?c = (Inr 30, ?c1)" by code_simp
  have f1: "flush ?c1 = (Inr None, ?c2)" by code_simp
  have l: "run_loop ?d [] ?b 100 (clock ?c2) [[]] UNSET ?c2 = (Inr ([?X], UNSET), ?c3)"
    by code_simp
  have f2: "flush ?c3 = (Inr None, ?c4)" by code_simp
  have e: "exitcode_pattern_search ?d ?X" by code_simp
  have b: "break_on_search ?b ?X" by code_simp
  have r: "run_raw ?f ?d 100 [] ?b ?c = (Inr (''done'' @ [CHR 0x0A], 3), ?c4)" by code_simp
  have la: "last [?X] = ?X" "concat (append_out [?X] None) = ?X"
    by (simp_all add: append_out_def)
  have w: "\<exists>out code zeros rest. R out code \<and> 0 \<le> code \<and> Q out code zeros rest
              \<and> P1 rest \<and> P2 out \<Longrightarrow>
           \<exists>out code zeros rest. R out code \<and> 0 \<le> code \<and> Q out code zeros rest"
    for R :: "string \<Rightarrow> int \<Rightarrow> bool" and Q :: "string \<Rightarrow> int \<Rightarrow> nat \<Rightarrow> string \<Rightarrow> bool" and P1 P2
    by blast
  from exit_marker_tested_before_break_pattern [OF lit s f1 l f2,
      THEN conjunct2, THEN conjunct1, unfolded la, THEN mp, OF e]
  have "\<exists>out code zeros rest.
         run_raw ?f ?d 100 [] ?b ?c = (Inr (out, code), ?c4) \<and> 0 \<le> code
       \<and> ?X = out @ ?d @ '':'' @ replicate zeros (CHR ''0'') @ decimal (nat code) @ rest"
    by (rule w)
  with e b r show ?thesis by (intro conjI)
qed

section \<open>Facts about token verification\<close>

lemma verify_env_variable_facts:
  assumes "verify_env_variable v s = (r, s1)"
  shows "(sent (gateway s1) = sent (gateway s)
          \<or> sent (gateway s1) = sent (gateway s)
               @ [regular_command (''echo exists: $?'' @ v) ''__EXITCODE'' False @ [CHR 0x0A]])
       \<and> (\<forall>e. r = Inl e \<longrightarrow> e = RuntimeError \<or> e = CommandTimeoutError)
       \<and> target_data s1 = target_data s"
proof -
  let ?f = "regular_command (''echo exists: $?'' @ v) ''__EXITCODE'' False"
  obtain r0 c1 where rr: "run_raw ?f ''__EXITCODE'' 100 [] None (gateway s) = (r0, c1)"
    by (cases "run_raw ?f ''__EXITCODE'' 100 [] None (gateway s)")
  then have og: "on_gateway (run (''echo exists: $?'' @ v) 100 [] None ''__EXITCODE'') s
      = (r0, s\<lparr>gateway := c1\<rparr>)"
    by (simp add: on_gateway_def run_def)
  have s1: "s1 = s\<lparr>gateway := c1\<rparr>"
    using assms og by (auto simp: verify_env_variable_def split: sum.splits prod.splits if_splits)
  have e: "r = Inl e \<Longrightarrow> e = RuntimeError \<or> e = CommandTimeoutError" for e
    using assms og run_raw_error [of ?f "''__EXITCODE''" 100 "[]" None "gateway s" e c1] rr
    by (auto simp: verify_env_variable_def split: sum.splits prod.splits if_splits)
  from run_raw_sent [OF rr] s1 e show ?thesis by auto
qed

lemma verify_target_session_token_facts:
  assumes "verify_target_session_token s = (r, s1)"
  shows "(sent (gateway s1) = sent (gateway s)
          \<or> sent (gateway s1) = sent (gateway s)
               @ [regular_command (''echo exists: $?'' @ TARGET_SESSION_VAR) ''__EXITCODE'' False @ [CHR 0x0A]])
       \<and> (\<forall>e. r = Inl e \<longrightarrow> e = TargetSessionInactiveError \<or> e = CommandTimeoutError)
       \<and> target_data s1 = target_data s"
proof -
  obtain r0 s0 where v: "verify_env_variable TARGET_SESSION_VAR s = (r0, s0)"
    by (cases "verify_env_variable TARGET_SESSION_VAR s")
  have "s1 = s0" and "\<forall>e. r = Inl e \<longrightarrow> e = TargetSessionInactiveError \<or> e = CommandTimeoutError"
    using assms v verify_env_variable_facts [OF v]
    by (auto simp: verify_target_session_token_def is_RuntimeError_def split: sum.splits if_splits)
  with verify_env_variable_facts [OF v] show ?thesis by simp
qed

lemma verify_gateway_session_token_facts:
  assumes "verify_gateway_session_token s = (r, s1)"
  shows "(sent (gateway s1) = sent (gateway s)
          \<or> sent (gateway s1) = sent (gateway s)
               @ [regular_command (''echo exists: $?'' @ GATEWAY_SESSION_VAR) ''__EXITCODE'' False @ [CHR 0x0A]])
       \<and> (\<forall>e. r = Inl e \<longrightarrow> e = GatewaySessionInactiveError \<or> e = CommandTimeoutError)
       \<and> target_data s1 = target_data s"
proof -
  obtain r0 s0 where v: "verify_env_variable GATEWAY_SESSION_VAR s = (r0, s0)"
    by (cases "verify_env_variable GATEWAY_SESSION_VAR s")
  have "s1 = s0" and "\<forall>e. r = Inl e \<longrightarrow> e = GatewaySessionInactiveError \<or> e = CommandTimeoutError"
    using assms v verify_env_variable_facts [OF v]
    by (auto simp: verify_gateway_session_token_def is_RuntimeError_def split: sum.splits if_splits)
  with verify_env_variable_facts [OF v] show ?thesis by simp
qed

lemma not_suffix_neq: "\<not> suffix ys zs \<Longrightarrow> xs @ ys \<noteq> zs"
  by (auto simp: suffix_def)

lemma target_probe_is_no_target_command:
  "regular_command cmd TARGET_SESSION_EXITCODE_DELIMITER as_root @ [CHR 0x0A]
     \<noteq> regular_command (''echo exists: $?'' @ TARGET_SESSION_VAR) ''__EXITCODE'' False @ [CHR 0x0A]"
  "bash_script_from_string content TARGET_SESSION_EXITCODE_DELIMITER args as_root @ [CHR 0x0A]
     \<noteq> regular_command (''echo exists: $?'' @ TARGET_SESSION_VAR) ''__EXITCODE'' False @ [CHR 0x0A]"
proof -
  let ?probe = "regular_command (''echo exists: $?'' @ TARGET_SESSION_VAR) ''__EXITCODE'' False @ [CHR 0x0A]"
  have 1: "\<not> suffix (''; echo __TARGET_EXITCODE:$?'' @ [CHR 0x0A]) ?probe" by code_simp
  have 2: "\<not> suffix [CHR 0x0A, CHR 0x0A] ?probe" by code_simp
  have "regular_command cmd TARGET_SESSION_EXITCODE_DELIMITER as_root @ [CHR 0x0A]
      = (if as_root then ''sudo su root -c '' @ strip cmd else strip cmd)
        @ (''; echo __TARGET_EXITCODE:$?'' @ [CHR 0x0A])"
    by (simp add: regular_command_def TARGET_SESSION_EXITCODE_DELIMITER_def)
  then show "regular_command cmd TARGET_SESSION_EXITCODE_DELIMITER as_root @ [CHR 0x0A] \<noteq> ?probe"
    using not_suffix_neq [OF 1] by metis
  have "\<exists>x. bash_script_from_string content TARGET_SESSION_EXITCODE_DELIMITER args as_root @ [CHR 0x0A]
      = x @ [CHR 0x0A, CHR 0x0A]"
    by (cases as_root) (simp_all add: bash_script_from_string_def Let_def)
  then show "bash_script_from_string content TARGET_SESSION_EXITCODE_DELIMITER args as_root @ [CHR 0x0A]
      \<noteq> ?probe"
    using not_suffix_neq [OF 2] by metis
qed

lemma respond_all_sent_prefix:
  "respond_all rs chunks c = (r, c') \<Longrightarrow> \<exists>more. sent c' = sent c @ more"
proof (induction rs arbitrary: chunks c)
  case Nil
  then show ?case by simp
next
  case (Cons x rs)
  show ?case
  proof (cases "matches x (last chunks)")
    case False
    with Cons show ?thesis by simp
  next
    case True
    obtain r1 c1 where s: "send (response x) 5 c = (r1, c1)" by (cases "send (response x) 5 c")
    from send_cases [OF s] have p1: "\<exists>more. sent c1 = sent c @ more" by auto
    show ?thesis
    proof (cases r1)
      case (Inl e1)
      with Cons.prems True s have "c' = c1" by simp
      with p1 show ?thesis by simp
    next
      case (Inr n)
      obtain r2 c2 where f: "flush c1 = (r2, c2)" by (cases "flush c1")
      have p2: "\<exists>more. sent c2 = sent c @ more" using p1 sent_flush [OF f] by simp
      show ?thesis
      proof (cases r2)
        case (Inl e2)
        with Cons.prems True s Inr f have "c' = c2" by simp
        with p2 show ?thesis by simp
      next
        case (Inr out)
        with Cons.prems True s f \<open>r1 = Inr n\<close>
        have "respond_all rs (append_out chunks out) c2 = (r, c')" by simp
        from Cons.IH [OF this] p2 show ?thesis by auto
      qed
    qed
  qed
qed

lemma iteration_sent_prefix:
  assumes "iteration d rs b chunks code c = (r, c')"
  shows "\<exists>more. sent c' = sent c @ more"
proof -
  obtain received c1 where p: "poll c = (received, c1)" by (cases "poll c")
  let ?chunks1 = "case received of None \<Rightarrow> chunks | Some chunk \<Rightarrow> butlast chunks @ [last chunks @ chunk]"
  obtain r2 c2 where ra: "respond_all rs ?chunks1 c1 = (r2, c2)"
    by (cases "respond_all rs ?chunks1 c1")
  have "sent c' = sent c2"
    using assms p ra by (auto simp: iteration_def Let_def sleep_def split: sum.splits if_splits)
  with respond_all_sent_prefix [OF ra] sent_poll [OF p] show ?thesis by simp
qed

lemma run_loop_sent_prefix:
  "run_loop d rs b t st chunks code c = (r, c') \<Longrightarrow> \<exists>more. sent c' = sent c @ more"
proof (induction d rs b t st chunks code c rule: run_loop.induct)
  case (1 d rs b t st chunks code c)
  show ?case
  proof (cases "t < clock c - st")
    case True
    with "1.prems" show ?thesis by (subst (asm) run_loop.simps) simp
  next
    case nt: False
    obtain r1 c1 where it: "iteration d rs b chunks code c = (r1, c1)"
      by (cases "iteration d rs b chunks code c")
    from iteration_sent_prefix [OF it] have s1: "\<exists>more. sent c1 = sent c @ more" .
    show ?thesis
    proof (cases r1)
      case (Inl e1)
      with "1.prems" nt it have "c' = c1" by (subst (asm) run_loop.simps) simp
      with s1 show ?thesis by simp
    next
      case (Inr x)
      obtain fl chunks1 code1 where x: "x = (fl, chunks1, code1)" by (cases x)
      note it' = it [unfolded Inr x]
      show ?thesis
      proof (cases fl)
        case Break
        with "1.prems" nt it' have "c' = c1" by (subst (asm) run_loop.simps) simp
        with s1 show ?thesis by simp
      next
        case Continue
        with "1.prems" nt it' have
          rec: "run_loop d rs b t st chunks1 code1 c1 = (r, c')"
          by (subst (asm) run_loop.simps) simp
        have itS: "(Inr (Continue, chunks1, code1), c1) = iteration d rs b chunks code c"
          using it' Continue by simp
        from "1.IH" [OF nt itS refl refl refl refl rec] s1 show ?thesis by auto
      qed
    qed
  qed
qed

lemma run_raw_sent_prefix:
  assumes "run_raw f d t rs b c = (r, c')"
  shows "sent c' = sent c \<or> (\<exists>more. sent c' = sent c @ (f @ [CHR 0x0A]) # more)"
proof (cases "ensure_channel_ready c")
  case (Inl e)
  with assms show ?thesis by (simp add: run_raw_def)
next
  case (Inr u)
  obtain r1 c1 where s: "send f 0 c = (r1, c1)" by (cases "send f 0 c")
  show ?thesis
  proof (cases r1)
    case (Inl e1)
    with assms \<open>ensure_channel_ready c = Inr u\<close> s send_cases [OF s] show ?thesis
      by (auto simp: run_raw_def)
  next
    case (Inr n)
    with send_cases [OF s] have s1: "sent c1 = sent c @ [f @ [CHR 0x0A]]" by auto
    obtain r2 c2 where f2: "flush c1 = (r2, c2)" by (cases "flush c1")
    obtain r3 c3 where l: "run_loop d rs b t (clock c2) [[]] UNSET c2 = (r3, c3)"
      by (cases "run_loop d rs b t (clock c2) [[]] UNSET c2")
    obtain r4 c4 where f4: "flush c3 = (r4, c4)" by (cases "flush c3")
    from run_loop_sent_prefix [OF l] obtain more where m: "sent c3 = sent c2 @ more" by blast
    have "sent c2 = sent c1" "sent c4 = sent c3"
      using sent_flush [OF f2] sent_flush [OF f4] by simp_all
    moreover have "c' = c2 \<or> c' = c3 \<or> c' = c4"
      using assms \<open>ensure_channel_ready c = Inr u\<close> s Inr f2 l f4
      by (auto simp: run_raw_def Let_def split: sum.splits prod.splits if_splits)
    ultimately show ?thesis using s1 m by auto
  qed
qed

lemma run_raw_sent_Inr:
  assumes "run_raw f d t [] b c = (Inr x, c')"
  shows "sent c' = sent c @ [f @ [CHR 0x0A]]"
proof -
  obtain out code where x: "x = (out, code)" by (cases x)
  from run_raw_Inr [OF assms [unfolded x]] obtain n c1 o2 c2 chunks lc c3 o4 where
    h: "send f 0 c = (Inr n, c1)" "flush c1 = (Inr o2, c2)"
       "run_loop d [] b t (clock c2) [[]] UNSET c2 = (Inr (chunks, lc), c3)"
       "flush c3 = (Inr o4, c')" by blast
  from send_cases [OF h(1)] sent_flush [OF h(2)] run_loop_sent [OF h(3)] sent_flush [OF h(4)]
  show ?thesis by auto
qed

lemma verify_target_session_token_Inr:
  assumes "verify_target_session_token s = (Inr u, s1)"
  shows "sent (gateway s1) = sent (gateway s)
           @ [regular_command (''echo exists: $?'' @ TARGET_SESSION_VAR) ''__EXITCODE'' False @ [CHR 0x0A]]"
proof -
  let ?f = "regular_command (''echo exists: $?'' @ TARGET_SESSION_VAR) ''__EXITCODE'' False"
  obtain r0 c1 where rr: "run_raw ?f ''__EXITCODE'' 100 [] None (gateway s) = (r0, c1)"
    by (cases "run_raw ?f ''__EXITCODE'' 100 [] None (gateway s)")
  from assms rr obtain x where "r0 = Inr x" "s1 = s\<lparr>gateway := c1\<rparr>"
    by (auto simp: verify_target_session_token_def verify_env_variable_def on_gateway_def run_def
          split: sum.splits prod.splits if_splits)
  with run_raw_sent_Inr [of ?f "''__EXITCODE''" 100 None "gateway s" x c1] rr show ?thesis by simp
qed

lemma on_gateway_run_family_sent:
  assumes "on_gateway (run cmd t rs b d) s = (r, s')
         \<or> on_gateway (run_as_root cmd pw t rs b d) s = (r, s')
         \<or> on_gateway (run_bash_script_as_root script pw args from_file t rs b d) s = (r, s')"
  shows "\<exists>more. sent (gateway s') = sent (gateway s) @ more"
proof -
  have raw: "run_raw f d t rs' b (gateway s) = (r, c') \<Longrightarrow> \<exists>more. sent c' = sent (gateway s) @ more"
    for f rs' c'
    using run_raw_sent_prefix [of f d t rs' b "gateway s" r c'] by auto
  from assms consider
      (a) "on_gateway (run cmd t rs b d) s = (r, s')"
    | (b) "on_gateway (run_as_root cmd pw t rs b d) s = (r, s')"
    | (c) "on_gateway (run_bash_script_as_root script pw args from_file t rs b d) s = (r, s')"
    by blast
  then show ?thesis
  proof cases
    case a
    from on_gateway_Inr [OF a] raw show ?thesis unfolding run_def by auto
  next
    case b
    from on_gateway_Inr [OF b] raw show ?thesis unfolding run_as_root_def by auto
  next
    case c
    from on_gateway_Inr [OF c] obtain c' where
      c': "run_bash_script_as_root script pw args from_file t rs b d (gateway s) = (r, c')"
        "s' = s\<lparr>gateway := c'\<rparr>" by blast
    show ?thesis
    proof (cases "from_file \<and> bash_script_from_local_file (map_of (files (gateway s))) script d args True = Inl FileNotFoundError")
      case True
      with c' show ?thesis
        by (auto simp: run_bash_script_as_root_def)
    next
      case False
      then obtain f where "run_raw f d t (get_sudo_password_responder pw # rs) b (gateway s) = (r, c')"
        using c'(1)
        by (auto simp: run_bash_script_as_root_def bash_script_from_local_file_def
              split: sum.splits if_splits option.splits)
      from raw [OF this] c'(2) show ?thesis by simp
    qed
  qed
qed

section \<open>The target token is verified before every command at the target\<close>

text \<open>
  C5. \<^verbatim>\<open>run_at_target\<close>, \<^verbatim>\<open>run_as_root_at_target\<close> and
  \<^verbatim>\<open>run_bash_script_at_target_as_root\<close> first verify the target session token.
  If the verification raises, the call raises the same exception in the state the
  verification left: the only text it may have written to the channel is the
  verification probe, which is none of the formatted target commands. If the
  verification succeeds, the probe has been written and the call is the run of the
  gateway connection with the target delimiter in the state after the verification, so
  that whatever that run writes follows the probe.
\<close>

theorem target_token_verified_before_command:
  assumes "verify_target_session_token s = (r, s1)"
  shows "(\<forall>e. r = Inl e \<longrightarrow>
             run_at_target cmd rs b t s = (Inl e, s1)
           \<and> run_as_root_at_target cmd pw rs b t s = (Inl e, s1)
           \<and> run_bash_script_at_target_as_root script pw args from_file t rs b s = (Inl e, s1)
           \<and> (\<exists>new. sent (gateway s1) = sent (gateway s) @ new
                \<and> (\<forall>as_root content.
                      regular_command cmd TARGET_SESSION_EXITCODE_DELIMITER as_root @ [CHR 0x0A] \<notin> set new
                    \<and> bash_script_from_string content TARGET_SESSION_EXITCODE_DELIMITER args as_root
                        @ [CHR 0x0A] \<notin> set new)))
       \<and> (r = Inr () \<longrightarrow>
             run_at_target cmd rs b t s
               = on_gateway (run cmd t rs b TARGET_SESSION_EXITCODE_DELIMITER) s1
           \<and> run_as_root_at_target cmd pw rs b t s
               = on_gateway (run_as_root cmd pw t rs b TARGET_SESSION_EXITCODE_DELIMITER) s1
           \<and> run_bash_script_at_target_as_root script pw args from_file t rs b s
               = on_gateway (run_bash_script_as_root script pw args from_file t rs b
                               TARGET_SESSION_EXITCODE_DELIMITER) s1
           \<and> (\<forall>res s2.
                  run_at_target cmd rs b t s = (res, s2)
                \<or> run_as_root_at_target cmd pw rs b t s = (res, s2)
                \<or> run_bash_script_at_target_as_root script pw args from_file t rs b s = (res, s2)
                \<longrightarrow> (\<exists>more. sent (gateway s2) = sent (gateway s)
                        @ (regular_command (''echo exists: $?'' @ TARGET_SESSION_VAR) ''__EXITCODE'' False
                             @ [CHR 0x0A]) # more)))"
proof (intro conjI allI impI)
  fix e assume e: "r = Inl e"
  show "run_at_target cmd rs b t s = (Inl e, s1)"
    using assms e by (simp add: run_at_target_def)
  show "run_as_root_at_target cmd pw rs b t s = (Inl e, s1)"
    using assms e by (simp add: run_as_root_at_target_def)
  show "run_bash_script_at_target_as_root script pw args from_file t rs b s = (Inl e, s1)"
    using assms e by (simp add: run_bash_script_at_target_as_root_def)
  let ?probe = "regular_command (''echo exists: $?'' @ TARGET_SESSION_VAR) ''__EXITCODE'' False @ [CHR 0x0A]"
  from verify_target_session_token_facts [OF assms]
  have "sent (gateway s1) = sent (gateway s) @ [] \<or> sent (gateway s1) = sent (gateway s) @ [?probe]"
    by simp
  then obtain new where n: "sent (gateway s1) = sent (gateway s) @ new" "new = [] \<or> new = [?probe]"
    by blast
  have "regular_command cmd TARGET_SESSION_EXITCODE_DELIMITER as_root @ [CHR 0x0A] \<notin> set new
      \<and> bash_script_from_string content TARGET_SESSION_EXITCODE_DELIMITER args as_root
          @ [CHR 0x0A] \<notin> set new" for as_root content
    using n(2) target_probe_is_no_target_command(1) [of cmd as_root]
      target_probe_is_no_target_command(2) [of content args as_root] by auto
  with n(1) show "\<exists>new. sent (gateway s1) = sent (gateway s) @ new
                \<and> (\<forall>as_root content.
                      regular_command cmd TARGET_SESSION_EXITCODE_DELIMITER as_root @ [CHR 0x0A] \<notin> set new
                    \<and> bash_script_from_string content TARGET_SESSION_EXITCODE_DELIMITER args as_root
                        @ [CHR 0x0A] \<notin> set new)" by blast
next
  assume ok: "r = Inr ()"
  show a: "run_at_target cmd rs b t s
               = on_gateway (run cmd t rs b TARGET_SESSION_EXITCODE_DELIMITER) s1"
    using assms ok by (simp add: run_at_target_def)
  show b: "run_as_root_at_target cmd pw rs b t s
               = on_gateway (run_as_root cmd pw t rs b TARGET_SESSION_EXITCODE_DELIMITER) s1"
    using assms ok by (simp add: run_as_root_at_target_def)
  show c: "run_bash_script_at_target_as_root script pw args from_file t rs b s
               = on_gateway (run_bash_script_as_root script pw args from_file t rs b
                               TARGET_SESSION_EXITCODE_DELIMITER) s1"
    using assms ok by (simp add: run_bash_script_at_target_as_root_def)
  fix res s2
  assume "run_at_target cmd rs b t s = (res, s2)
                \<or> run_as_root_at_target cmd pw rs b t s = (res, s2)
                \<or> run_bash_script_at_target_as_root script pw args from_file t rs b s = (res, s2)"
  then have "on_gateway (run cmd t rs b TARGET_SESSION_EXITCODE_DELIMITER) s1 = (res, s2)
         \<or> on_gateway (run_as_root cmd pw t rs b TARGET_SESSION_EXITCODE_DELIMITER) s1 = (res, s2)
         \<or> on_gateway (run_bash_script_as_root script pw args from_file t rs b
              TARGET_SESSION_EXITCODE_DELIMITER) s1 = (res, s2)"
    unfolding a b c .
  from on_gateway_run_family_sent [OF this] obtain more where
    "sent (gateway s2) = sent (gateway s1) @ more" by blast
  with verify_target_session_token_Inr [OF assms [unfolded ok]]
  show "\<exists>more. sent (gateway s2) = sent (gateway s)
                        @ (regular_command (''echo exists: $?'' @ TARGET_SESSION_VAR) ''__EXITCODE'' False
                             @ [CHR 0x0A]) # more" by simp
qed

theorem target_token_verified_before_command_witness:
  "verify_target_session_token
      \<lparr>gateway = \<lparr>channel = Some False, dials = [],
                  incoming = [Idle, Data (''exists: 0'' @ [CHR 0x0A] @ ''__EXITCODE:0'' @ [CHR 0x0A]), Idle],
                  sent = [], clock = 0, files = []\<rparr>,
       target_data = \<lparr>host = ''10.0.0.7'', user = ''admin'', password = ''pw'', port = 22,
                      internal_host = None\<rparr>\<rparr>
     = (Inl TargetSessionInactiveError,
        \<lparr>gateway = \<lparr>channel = Some False, dials = [], incoming = [],
                    sent = [''echo exists: $?__TARGET_SESSION; echo __EXITCODE:$?'' @ [CHR 0x0A]],
                    clock = 0, files = []\<rparr>,
         target_data = \<lparr>host = ''10.0.0.7'', user = ''admin'', password = ''pw'', port = 22,
                        internal_host = None\<rparr>\<rparr>)
   \<and> run_at_target ''ls /tmp'' [] None 300
      \<lparr>gateway = \<lparr>channel = Some False, dials = [],
                  incoming = [Idle, Data (''exists: 0'' @ [CHR 0x0A] @ ''__EXITCODE:0'' @ [CHR 0x0A]), Idle],
                  sent = [], clock = 0, files = []\<rparr>,
       target_data = \<lparr>host = ''10.0.0.7'', user = ''admin'', password = ''pw'', port = 22,
                      internal_host = None\<rparr>\<rparr>
     = (Inl TargetSessionInactiveError,
        \<lparr>gateway = \<lparr>channel = Some False, dials = [], incoming = [],
                    sent = [''echo exists: $?__TARGET_SESSION; echo __EXITCODE:$?'' @ [CHR 0x0A]],
                    clock = 0, files = []\<rparr>,
         target_data = \<lparr>host = ''10.0.0.7'', user = ''admin'', password = ''pw'', port = 22,
                        internal_host = None\<rparr>\<rparr>)
   \<and> run_at_target ''ls /tmp'' [] None 300
      \<lparr>gateway = \<lparr>channel = Some False, dials = [],
                  incoming = [Idle, Data (''exists: 1'' @ [CHR 0x0A] @ ''__EXITCODE:0'' @ [CHR 0x0A]), Idle,
                              Idle, Data (''file.txt'' @ [CHR 0x0A] @ ''__TARGET_EXITCODE:0'' @ [CHR 0x0A]), Idle],
                  sent = [], clock = 0, files = []\<rparr>,
       target_data = \<lparr>host = ''10.0.0.7'', user = ''admin'', password = ''pw'', port = 22,
                      internal_host = None\<rparr>\<rparr>
     = (Inr (''file.txt'' @ [CHR 0x0A], 0),
        \<lparr>gateway = \<lparr>channel = Some False, dials = [], incoming = [],
                    sent = [''echo exists: $?__TARGET_SESSION; echo __EXITCODE:$?'' @ [CHR 0x0A],
                            ''ls /tmp; echo __TARGET_EXITCODE:$?'' @ [CHR 0x0A]],
                    clock = 0, files = []\<rparr>,
         target_data = \<lparr>host = ''10.0.0.7'', user = ''admin'', password = ''pw'', port = 22,
                        internal_host = None\<rparr>\<rparr>)"
  (is "?v \<and> ?a \<and> ?b")
proof -
  have v: ?v by code_simp
  have b: ?b by code_simp
  from target_token_verified_before_command [OF v, of "''ls /tmp''" "[]" None 300]
  have ?a by blast
  with v b show ?thesis by (intro conjI)
qed

section \<open>Establishing the target hop\<close>

text \<open>
  C1. \<^verbatim>\<open>establish_target_host_connection\<close> is written to raise
  \<^verbatim>\<open>TargetSSHConnectionError\<close> when the gateway token cannot be verified: it wraps
  the verification in \<^verbatim>\<open>except RuntimeError\<close> and raises that exception there. But
  \<^verbatim>\<open>verify_gateway_session_token\<close> has already turned every
  \<^verbatim>\<open>RuntimeError\<close> into \<^verbatim>\<open>GatewaySessionInactiveError\<close>, which is not a
  \<^verbatim>\<open>RuntimeError\<close>, so the handler never runs. Here the gateway shell answers the
  probe with \<^verbatim>\<open>exists: 0\<close>, the session variable is not set: the call fails with
  \<^verbatim>\<open>GatewaySessionInactiveError\<close>, not with \<^verbatim>\<open>TargetSSHConnectionError\<close>.
  The other half of the claim holds: only the probe has been written to the channel,
  and no nested \<^verbatim>\<open>ssh\<close> command.
\<close>

theorem gateway_token_failure_raises_gateway_session_inactive:
  "establish_target_host_connection (contains ''$ '') 900
      \<lparr>gateway = \<lparr>channel = Some False, dials = [],
                  incoming = [Idle, Data (''exists: 0'' @ [CHR 0x0A] @ ''__EXITCODE:0'' @ [CHR 0x0A]), Idle],
                  sent = [], clock = 0, files = []\<rparr>,
       target_data = \<lparr>host = ''10.0.0.7'', user = ''admin'', password = ''pw'', port = 22,
                      internal_host = None\<rparr>\<rparr>
     = (Inl GatewaySessionInactiveError,
        \<lparr>gateway = \<lparr>channel = Some False, dials = [], incoming = [],
                    sent = [''echo exists: $?__GATEWAY_SESSION; echo __EXITCODE:$?'' @ [CHR 0x0A]],
                    clock = 0, files = []\<rparr>,
         target_data = \<lparr>host = ''10.0.0.7'', user = ''admin'', password = ''pw'', port = 22,
                        internal_host = None\<rparr>\<rparr>)"
  by code_simp

text \<open>
  This is so for every session: whatever the verification of the gateway token raises
  leaves \<^verbatim>\<open>establish_target_host_connection\<close> unchanged, it is never a
  \<^verbatim>\<open>TargetSSHConnectionError\<close>, and the state is the one that the verification
  left, in which at most the probe has been written to the channel.
\<close>

lemma gateway_token_failure_is_not_target_connection_error:
  assumes "verify_gateway_session_token s = (Inl e, s1)"
  shows "establish_target_host_connection p t s = (Inl e, s1)
       \<and> (e = GatewaySessionInactiveError \<or> e = CommandTimeoutError)
       \<and> (\<forall>x. e \<noteq> TargetSSHConnectionError x)
       \<and> (sent (gateway s1) = sent (gateway s)
            \<or> sent (gateway s1) = sent (gateway s)
                 @ [regular_command (''echo exists: $?'' @ GATEWAY_SESSION_VAR) ''__EXITCODE'' False
                      @ [CHR 0x0A]])"
proof -
  from verify_gateway_session_token_facts [OF assms]
  have k: "e = GatewaySessionInactiveError \<or> e = CommandTimeoutError"
    and l: "sent (gateway s1) = sent (gateway s)
            \<or> sent (gateway s1) = sent (gateway s)
                 @ [regular_command (''echo exists: $?'' @ GATEWAY_SESSION_VAR) ''__EXITCODE'' False
                      @ [CHR 0x0A]]"
    by simp_all
  from k have n: "\<not> is_RuntimeError e" by (auto simp: is_RuntimeError_def)
  have "establish_target_host_connection p t s = (Inl e, s1)"
    using assms n by (simp add: establish_target_host_connection_def)
  with k l show ?thesis by auto
qed

text \<open>
  C4. \<^verbatim>\<open>establish_target_host_connection\<close> is to succeed only when the nested
  \<^verbatim>\<open>ssh\<close> command returns the sentinel \<open>BREAK_TRIGGERED\<close>, and to raise
  \<^verbatim>\<open>TargetSSHConnectionError\<close> with the captured output for any other outcome; its
  docstring promises that exception when the connection ``does not reach the expected
  prompt''. But the run of the \<^verbatim>\<open>ssh\<close> command is not inside a \<^verbatim>\<open>try\<close>, unlike the
  run that sets the session variable a few lines below, whose timeout is turned into
  \<^verbatim>\<open>TargetSSHConnectionError\<close>. Here the gateway token is verified, the
  \<^verbatim>\<open>ssh\<close> command is sent, and the remote side stays silent: neither the prompt nor
  the exit marker arrives within \<^verbatim>\<open>shell_prompt_timeout\<close>. The call fails with
  \<^verbatim>\<open>CommandTimeoutError\<close>, not with \<^verbatim>\<open>TargetSSHConnectionError\<close>, and no output
  is attached.
\<close>

theorem target_hop_timeout_raises_command_timeout:
  "fst (verify_gateway_session_token
      \<lparr>gateway = \<lparr>channel = Some False, dials = [],
                  incoming = [Idle, Data (''exists: 1'' @ [CHR 0x0A] @ ''__EXITCODE:0'' @ [CHR 0x0A]), Idle],
                  sent = [], clock = 0, files = []\<rparr>,
       target_data = \<lparr>host = ''10.0.0.7'', user = ''admin'', password = ''pw'', port = 22,
                      internal_host = None\<rparr>\<rparr>) = Inr ()
   \<and> establish_target_host_connection (contains ''# '') 3
      \<lparr>gateway = \<lparr>channel = Some False, dials = [],
                  incoming = [Idle, Data (''exists: 1'' @ [CHR 0x0A] @ ''__EXITCODE:0'' @ [CHR 0x0A]), Idle],
                  sent = [], clock = 0, files = []\<rparr>,
       target_data = \<lparr>host = ''10.0.0.7'', user = ''admin'', password = ''pw'', port = 22,
                      internal_host = None\<rparr>\<rparr>
     = (Inl CommandTimeoutError,
        \<lparr>gateway = \<lparr>channel = Some False, dials = [], incoming = [],
                    sent = [''echo exists: $?__GATEWAY_SESSION; echo __EXITCODE:$?'' @ [CHR 0x0A],
                            ''ssh admin@10.0.0.7; echo __SSH_TARGET_CONNECTION_EXITCODE:$?'' @ [CHR 0x0A]],
                    clock = 4, files = []\<rparr>,
         target_data = \<lparr>host = ''10.0.0.7'', user = ''admin'', password = ''pw'', port = 22,
                        internal_host = None\<rparr>\<rparr>)"
  by code_simp

text \<open>
  The rest of the claim holds. The call succeeds only when the nested \<^verbatim>\<open>ssh\<close>
  command, run through the gateway after the gateway token has been verified, returns
  \<open>BREAK_TRIGGERED\<close>; when that run returns any other exit code, the call raises
  \<^verbatim>\<open>TargetSSHConnectionError\<close> carrying the exit code and the captured output; and
  an exception that the run raises leaves the call as it is. The example is the rejected
  authentication of the specification, with exit code 5.
\<close>

lemma target_hop_needs_break_sentinel:
  "(establish_target_host_connection p t s = (Inr (), s') \<longrightarrow>
      (\<exists>s1 s2 out.
         verify_gateway_session_token s = (Inr (), s1)
       \<and> on_gateway
            (run (ssh_command (target_data s1)) t
               [SSH_CONNECTION_YES_NO_FINGERPRINT_RESPONDER,
                get_ssh_login_password_responder (password (target_data s1))]
               (Some p) SSH_TARGET_CONNECTION_EXITCODE) s1
          = (Inr (out, BREAK_TRIGGERED), s2)))
   \<and> (verify_gateway_session_token s = (Inr (), s1)
       \<and> on_gateway
            (run (ssh_command (target_data s1)) t
               [SSH_CONNECTION_YES_NO_FINGERPRINT_RESPONDER,
                get_ssh_login_password_responder (password (target_data s1))]
               (Some p) SSH_TARGET_CONNECTION_EXITCODE) s1
          = (Inr (out, exit_code), s2)
       \<and> exit_code \<noteq> BREAK_TRIGGERED
      \<longrightarrow> establish_target_host_connection p t s
            = (Inl (TargetSSHConnectionError (SshDidNotReachPrompt exit_code out)), s2))
   \<and> (verify_gateway_session_token s = (Inr (), s1)
       \<and> on_gateway
            (run (ssh_command (target_data s1)) t
               [SSH_CONNECTION_YES_NO_FINGERPRINT_RESPONDER,
                get_ssh_login_password_responder (password (target_data s1))]
               (Some p) SSH_TARGET_CONNECTION_EXITCODE) s1
          = (Inl e, s2)
      \<longrightarrow> establish_target_host_connection p t s = (Inl e, s2))"
proof (intro conjI impI)
  assume ok: "establish_target_host_connection p t s = (Inr (), s')"
  obtain r1 s1 where v: "verify_gateway_session_token s = (r1, s1)"
    by (cases "verify_gateway_session_token s")
  let ?run = "on_gateway
            (run (ssh_command (target_data s1)) t
               [SSH_CONNECTION_YES_NO_FINGERPRINT_RESPONDER,
                get_ssh_login_password_responder (password (target_data s1))]
               (Some p) SSH_TARGET_CONNECTION_EXITCODE) s1"
  obtain r2 s2 where r: "?run = (r2, s2)" by (cases ?run)
  from ok v have r1: "r1 = Inr ()"
    by (cases r1) (auto simp: establish_target_host_connection_def split: if_splits)
  from ok v r1 r obtain out code where r2: "r2 = Inr (out, code)"
    by (cases r2) (auto simp: establish_target_host_connection_def Let_def)
  from ok v r1 r r2 have "code = BREAK_TRIGGERED"
    by (auto simp: establish_target_host_connection_def Let_def split: if_splits)
  with v r1 r r2 show "\<exists>s1 s2 out.
         verify_gateway_session_token s = (Inr (), s1)
       \<and> on_gateway
            (run (ssh_command (target_data s1)) t
               [SSH_CONNECTION_YES_NO_FINGERPRINT_RESPONDER,
                get_ssh_login_password_responder (password (target_data s1))]
               (Some p) SSH_TARGET_CONNECTION_EXITCODE) s1
          = (Inr (out, BREAK_TRIGGERED), s2)" by blast
next
  assume "verify_gateway_session_token s = (Inr (), s1)
       \<and> on_gateway
            (run (ssh_command (target_data s1)) t
               [SSH_CONNECTION_YES_NO_FINGERPRINT_RESPONDER,
                get_ssh_login_password_responder (password (target_data s1))]
               (Some p) SSH_TARGET_CONNECTION_EXITCODE) s1
          = (Inr (out, exit_code), s2)
       \<and> exit_code \<noteq> BREAK_TRIGGERED"
  then show "establish_target_host_connection p t s
            = (Inl (TargetSSHConnectionError (SshDidNotReachPrompt exit_code out)), s2)"
    by (simp add: establish_target_host_connection_def Let_def)
next
  assume "verify_gateway_session_token s = (Inr (), s1)
       \<and> on_gateway
            (run (ssh_command (target_data s1)) t
               [SSH_CONNECTION_YES_NO_FINGERPRINT_RESPONDER,
                get_ssh_login_password_responder (password (target_data s1))]
               (Some p) SSH_TARGET_CONNECTION_EXITCODE) s1
          = (Inl e, s2)"
  then show "establish_target_host_connection p t s = (Inl e, s2)"
    by (simp add: establish_target_host_connection_def Let_def)
qed


lemma target_hop_rejected_authentication:
  "establish_target_host_connection (contains ''# '') 900
      \<lparr>gateway = \<lparr>channel = Some False, dials = [],
                  incoming = [Idle, Data (''exists: 1'' @ [CHR 0x0A] @ ''__EXITCODE:0'' @ [CHR 0x0A]), Idle,
                              Idle, Data (''Permission denied, please try again.'' @ [CHR 0x0A]
                                          @ ''__SSH_TARGET_CONNECTION_EXITCODE:5'' @ [CHR 0x0A]), Idle],
                  sent = [], clock = 0, files = []\<rparr>,
       target_data = \<lparr>host = ''10.0.0.7'', user = ''admin'', password = ''pw'', port = 22,
                      internal_host = None\<rparr>\<rparr>
     = (Inl (TargetSSHConnectionError
               (SshDidNotReachPrompt 5 (''Permission denied, please try again.'' @ [CHR 0x0A]))),
        \<lparr>gateway = \<lparr>channel = Some False, dials = [], incoming = [],
                    sent = [''echo exists: $?__GATEWAY_SESSION; echo __EXITCODE:$?'' @ [CHR 0x0A],
                            ''ssh admin@10.0.0.7; echo __SSH_TARGET_CONNECTION_EXITCODE:$?'' @ [CHR 0x0A]],
                    clock = 0, files = []\<rparr>,
         target_data = \<lparr>host = ''10.0.0.7'', user = ''admin'', password = ''pw'', port = 22,
                        internal_host = None\<rparr>\<rparr>)"
proof -
  let ?t = "\<lparr>host = ''10.0.0.7'', user = ''admin'', password = ''pw'', port = 22,
                      internal_host = None\<rparr>"
  let ?s = "\<lparr>gateway = \<lparr>channel = Some False, dials = [],
                  incoming = [Idle, Data (''exists: 1'' @ [CHR 0x0A] @ ''__EXITCODE:0'' @ [CHR 0x0A]), Idle,
                              Idle, Data (''Permission denied, please try again.'' @ [CHR 0x0A]
                                          @ ''__SSH_TARGET_CONNECTION_EXITCODE:5'' @ [CHR 0x0A]), Idle],
                  sent = [], clock = 0, files = []\<rparr>,
       target_data = ?t\<rparr>"
  let ?s1 = "\<lparr>gateway = \<lparr>channel = Some False, dials = [],
                  incoming = [Idle, Data (''Permission denied, please try again.'' @ [CHR 0x0A]
                                          @ ''__SSH_TARGET_CONNECTION_EXITCODE:5'' @ [CHR 0x0A]), Idle],
                  sent = [''echo exists: $?__GATEWAY_SESSION; echo __EXITCODE:$?'' @ [CHR 0x0A]],
                  clock = 0, files = []\<rparr>,
       target_data = ?t\<rparr>"
  let ?s2 = "\<lparr>gateway = \<lparr>channel = Some False, dials = [], incoming = [],
                    sent = [''echo exists: $?__GATEWAY_SESSION; echo __EXITCODE:$?'' @ [CHR 0x0A],
                            ''ssh admin@10.0.0.7; echo __SSH_TARGET_CONNECTION_EXITCODE:$?'' @ [CHR 0x0A]],
                    clock = 0, files = []\<rparr>,
         target_data = ?t\<rparr>"
  have v: "verify_gateway_session_token ?s = (Inr (), ?s1)" by code_simp
  have r: "on_gateway
            (run (ssh_command (target_data ?s1)) 900
               [SSH_CONNECTION_YES_NO_FINGERPRINT_RESPONDER,
                get_ssh_login_password_responder (password (target_data ?s1))]
               (Some (contains ''# '')) SSH_TARGET_CONNECTION_EXITCODE) ?s1
          = (Inr (''Permission denied, please try again.'' @ [CHR 0x0A], 5), ?s2)"
    by code_simp
  have n: "(5::int) \<noteq> BREAK_TRIGGERED" by code_simp
  from target_hop_needs_break_sentinel [THEN conjunct2, THEN conjunct1, rule_format,
      OF conjI [OF v conjI [OF r n]]]
  show ?thesis .
qed

section \<open>Facts about the batch loop\<close>

lemma run_all_loop_append:
  "run_all_loop g commands (pre @ post) results s =
     (case run_all_loop g commands pre results s of
        (Inl e, s1) \<Rightarrow> (Inl e, s1)
      | (Inr results1, s1) \<Rightarrow> run_all_loop g commands post results1 s1)"
proof (induction pre arbitrary: results s)
  case Nil
  then show ?case by simp
next
  case (Cons target pre)
  obtain r s1 where t: "run_target g target commands s = (r, s1)"
    by (cases "run_target g target commands s")
  show ?case
  proof (cases r)
    case (Inl e)
    with t show ?thesis by simp
  next
    case (Inr out)
    obtain r2 s2 where c: "session_close s1 = (r2, s2)" by (cases "session_close s1")
    show ?thesis
      using t Inr c Cons.IH by (cases r2) (simp_all add: Let_def)
  qed
qed

lemma dict_set_keys:
  "k \<notin> set (map fst kvs) \<Longrightarrow> map fst (dict_set kvs k v) = map fst kvs @ [k]"
  by (induction kvs) auto

lemma dict_set_map_of: "map_of (dict_set kvs k v) = (map_of kvs)(k \<mapsto> v)"
  by (induction kvs) (auto simp: fun_eq_iff)

lemma run_all_loop_results:
  "run_all_loop g commands ts results s = (Inr final, s') \<Longrightarrow>
   distinct (map fst results @ map host ts) \<Longrightarrow>
     map fst final = map fst results @ map host ts
   \<and> (\<forall>k. k \<notin> set (map host ts) \<longrightarrow> map_of final k = map_of results k)"
proof (induction ts arbitrary: results s)
  case Nil
  then show ?case by simp
next
  case (Cons target ts)
  obtain r s1 where t: "run_target g target commands s = (r, s1)"
    by (cases "run_target g target commands s")
  from Cons.prems(1) t obtain out where r: "r = Inr out" by (cases r) auto
  let ?results = "dict_set results (host target) out"
  from Cons.prems(1) t r obtain s2 where
    rest: "run_all_loop g commands ts ?results s2 = (Inr final, s')"
    by (auto simp: Let_def split: if_splits prod.splits sum.splits)
  have fresh: "host target \<notin> set (map fst results)" using Cons.prems(2) by auto
  then have keys: "map fst ?results = map fst results @ [host target]"
    by (simp add: dict_set_keys)
  have d: "distinct (map fst ?results @ map host ts)"
    using Cons.prems(2) keys by auto
  from Cons.IH [OF rest d] have
    a: "map fst final = map fst ?results @ map host ts"
    and b: "\<forall>k. k \<notin> set (map host ts) \<longrightarrow> map_of final k = map_of ?results k" by simp_all
  have "map_of final k = map_of results k" if "k \<notin> set (map host (target # ts))" for k
    using b that by (simp add: dict_set_map_of)
  with a keys show ?case by simp
qed

lemma run_target_defect:
  assumes "list_all is_command_or_script commands"
    and "run_target_body g target commands s = (Inl (e, outs), s1)"
    and "e = CommandTimeoutError \<or> e = ExitCodeNotFoundError \<or> e = TargetSessionInactiveError
         \<or> (\<exists>x. e = TargetSSHConnectionError x)"
  shows "\<exists>out. run_target g target commands s = (Inr out, s1) \<and> \<not> success out \<and> error out = Some e
           \<and> (needs_reset out \<longleftrightarrow> e = TargetSessionInactiveError \<or> (\<exists>x. e = TargetSSHConnectionError x))"
  using assms by (auto simp: run_target_def needs_reset_def)

lemma run_target_gateway_failure:
  assumes "list_all is_command_or_script commands"
    and "run_target_body g target commands s = (Inl (e, outs), s1)"
    and "e = GatewaySSHConnectionError \<or> e = GatewaySessionInactiveError"
  shows "run_target g target commands s = (Inl e, s1)"
  using assms by (auto simp: run_target_def)

section \<open>Gateway failures abort the batch, target defects do not\<close>

text \<open>
  C7. Let the targets before target \<open>k\<close> have been processed. When \<^verbatim>\<open>run_target\<close>
  raises \<^verbatim>\<open>GatewaySSHConnectionError\<close> or \<^verbatim>\<open>GatewaySessionInactiveError\<close> for
  target \<open>k\<close>, \<^verbatim>\<open>run_all_targets\<close> ends with that exception in the state in which
  it was raised: it returns no results, and nothing is done for the targets after
  \<open>k\<close>. \<^verbatim>\<open>run_target\<close> raises it whenever its body (connecting, running the
  commands, leaving the target session), entered after the check of the commands, raises
  it. The same holds when the reset of the session that \<^verbatim>\<open>run_all_targets\<close> makes
  after a failed result of target \<open>k\<close> raises it.
\<close>

theorem gateway_failure_aborts_batch:
  assumes "targets g = pre @ target # post"
    and "run_all_loop g commands pre [] s = (Inr results, sk)"
    and "e = GatewaySSHConnectionError \<or> e = GatewaySessionInactiveError"
  shows "(run_target g target commands sk = (Inl e, s') \<longrightarrow>
            run_all_targets g commands s = (Inl e, s'))
       \<and> (list_all is_command_or_script commands
            \<and> run_target_body g target commands sk = (Inl (e, outs), s') \<longrightarrow>
            run_target g target commands sk = (Inl e, s')
          \<and> run_all_targets g commands s = (Inl e, s'))
       \<and> (run_target g target commands sk = (Inr out, s1) \<and> needs_reset out
            \<and> session_close s1 = (Inl e, s') \<longrightarrow>
            run_all_targets g commands s = (Inl e, s'))"
proof -
  have split: "run_all_targets g commands s = run_all_loop g commands (target # post) results sk"
    using assms(1,2) by (simp add: run_all_targets_def run_all_loop_append)
  have a: "run_all_targets g commands s = (Inl e, s')"
    if "run_target g target commands sk = (Inl e, s')"
    using that split by simp
  have b: "run_target g target commands sk = (Inl e, s')"
    if "list_all is_command_or_script commands"
      and "run_target_body g target commands sk = (Inl (e, outs), s')"
    using run_target_gateway_failure [OF that assms(3)] .
  have c: "run_all_targets g commands s = (Inl e, s')"
    if "run_target g target commands sk = (Inr out, s1)" "needs_reset out"
      "session_close s1 = (Inl e, s')"
    using that split by (simp add: Let_def)
  from a b c show ?thesis by blast
qed

text \<open>
  C2, amended. Let the commands all be \<^verbatim>\<open>TargetCommand\<close> or
  \<^verbatim>\<open>TargetBashScript\<close> objects (otherwise \<^verbatim>\<open>run_target\<close> raises
  \<^verbatim>\<open>InvalidTargetCommandError\<close> before it runs anything), let the targets have
  pairwise distinct hosts, let the targets before
  target \<open>k\<close> have been processed, and let the body of \<^verbatim>\<open>run_target\<close> raise a
  target-level defect \<open>e\<close> for target \<open>k\<close> (\<^verbatim>\<open>TargetSSHConnectionError\<close>,
  \<^verbatim>\<open>TargetSessionInactiveError\<close>, \<^verbatim>\<open>CommandTimeoutError\<close> or
  \<^verbatim>\<open>ExitCodeNotFoundError\<close>). Then \<^verbatim>\<open>run_target\<close> returns a failed result that
  holds \<open>e\<close>, and when the reset of the session that follows the first two kinds of
  defect completes, \<^verbatim>\<open>run_all_targets\<close> goes on with the targets after \<open>k\<close>
  from the state \<open>s2\<close> after the reset, with the failed result recorded. When these
  targets are processed without an exception that leaves \<^verbatim>\<open>run_target\<close> or the
  reset, the batch returns exactly one result per target, in the order of the target
  list, and that of target \<open>k\<close> is the failed one.
\<close>

theorem target_defect_does_not_stop_batch:
  assumes "targets g = pre @ target # post"
    and "distinct (map host (targets g))"
    and "list_all is_command_or_script commands"
    and "run_all_loop g commands pre [] s = (Inr results, sk)"
    and "run_target_body g target commands sk = (Inl (e, outs), s1)"
    and "e = CommandTimeoutError \<or> e = ExitCodeNotFoundError \<or> e = TargetSessionInactiveError
         \<or> (\<exists>x. e = TargetSSHConnectionError x)"
    and "if e = TargetSessionInactiveError \<or> (\<exists>x. e = TargetSSHConnectionError x)
         then session_close s1 = (Inr (), s2) else s2 = s1"
  shows "\<exists>failed. run_target g target commands sk = (Inr failed, s1)
           \<and> \<not> success failed \<and> error failed = Some e
           \<and> run_all_targets g commands s
               = run_all_loop g commands post (dict_set results (host target) failed) s2
           \<and> (\<forall>final s3. run_all_targets g commands s = (Inr final, s3) \<longrightarrow>
                  map fst final = map host (targets g)
                \<and> length final = length (targets g)
                \<and> map_of final (host target) = Some failed)"
proof -
  from run_target_defect [OF assms(3,5,6)] obtain failed where
    f: "run_target g target commands sk = (Inr failed, s1)" "\<not> success failed"
       "error failed = Some e"
       "needs_reset failed \<longleftrightarrow> e = TargetSessionInactiveError \<or> (\<exists>x. e = TargetSSHConnectionError x)"
    by blast
  let ?results = "dict_set results (host target) failed"
  have step: "run_all_loop g commands (target # post) results sk
      = run_all_loop g commands post ?results s2"
    using f(1,4) assms(7) by (auto simp: Let_def)
  have "run_all_loop g commands (pre @ target # post) [] s
      = run_all_loop g commands (target # post) results sk"
    using assms(4) by (simp add: run_all_loop_append)
  with step have cont: "run_all_targets g commands s = run_all_loop g commands post ?results s2"
    using assms(1) by (simp add: run_all_targets_def)
  have dpre: "distinct (map fst ([] :: (string \<times> TargetExecutionResult) list) @ map host pre)"
    using assms(1,2) by simp
  from run_all_loop_results [OF assms(4) dpre] have kpre: "map fst results = map host pre" by simp
  have fresh: "host target \<notin> set (map fst results)" using kpre assms(1,2) by auto
  then have keys: "map fst ?results = map host pre @ [host target]"
    using kpre by (simp add: dict_set_keys)
  have d: "distinct (map fst ?results @ map host post)" using keys assms(1,2) by simp
  have "map fst final = map host (targets g) \<and> length final = length (targets g)
      \<and> map_of final (host target) = Some failed"
    if r: "run_all_targets g commands s = (Inr final, s3)" for final s3
  proof -
    from r cont have "run_all_loop g commands post ?results s2 = (Inr final, s3)" by simp
    from run_all_loop_results [OF this d] have
      a: "map fst final = map fst ?results @ map host post"
      and b: "\<forall>k. k \<notin> set (map host post) \<longrightarrow> map_of final k = map_of ?results k" by simp_all
    have "host target \<notin> set (map host post)" using assms(1,2) by auto
    with b have "map_of final (host target) = Some failed" by (simp add: dict_set_map_of)
    moreover have m: "map fst final = map host (targets g)" using a keys assms(1) by simp
    moreover have "length final = length (targets g)"
      using arg_cong [OF m, of length] by simp
    ultimately show ?thesis by simp
  qed
  with f cont show ?thesis by blast
qed

lemma pair_fstI: "fst p = a \<Longrightarrow> p = (a, snd p)"
  by (cases p) simp

theorem gateway_failure_aborts_batch_witness:
  "run_all_targets example_group []
      (example_session [True] (gateway_ok @ hop_ok @ exit_ok @ token_unset))
   = (Inl GatewaySessionInactiveError,
      snd (run_target_body example_group (example_target ''10.0.0.2'') []
             (snd (run_all_loop example_group [] [example_target ''10.0.0.1''] []
                     (example_session [True] (gateway_ok @ hop_ok @ exit_ok @ token_unset))))))"
proof -
  let ?s = "example_session [True] (gateway_ok @ hop_ok @ exit_ok @ token_unset)"
  let ?pre = "run_all_loop example_group [] [example_target ''10.0.0.1''] [] ?s"
  let ?body = "run_target_body example_group (example_target ''10.0.0.2'') [] (snd ?pre)"
  have 1: "targets example_group
      = [example_target ''10.0.0.1''] @ example_target ''10.0.0.2'' # [example_target ''10.0.0.3'']"
    by (simp add: example_group_def)
  have 2: "list_all is_command_or_script []" by simp
  have "fst ?pre = Inr [(''10.0.0.1'', succeeded)]" by code_simp
  then have 3: "?pre = (Inr [(''10.0.0.1'', succeeded)], snd ?pre)" by (rule pair_fstI)
  have "fst ?body = Inl (GatewaySessionInactiveError, [])" by code_simp
  then have 4: "?body = (Inl (GatewaySessionInactiveError, []), snd ?body)" by (rule pair_fstI)
  have 5: "GatewaySessionInactiveError = GatewaySSHConnectionError
         \<or> GatewaySessionInactiveError = GatewaySessionInactiveError" by simp
  from gateway_failure_aborts_batch [OF 1 3 5, THEN conjunct2, THEN conjunct1, THEN mp,
      OF conjI [OF 2 4]]
  show ?thesis by (rule conjunct2)
qed

text \<open>
  C2, as stated, fails. In this batch of three targets the first target is processed,
  the nested \<^verbatim>\<open>ssh\<close> to the second target exits with status 255 and the gateway
  channel closes. \<^verbatim>\<open>run_target\<close> returns the failed result for the second target,
  a target-level defect; the reset of the session that \<^verbatim>\<open>run_all_targets\<close> then
  makes raises \<^verbatim>\<open>GatewaySessionInactiveError\<close>, so the batch returns no results and
  never sends the \<^verbatim>\<open>ssh\<close> command for the third target.
\<close>

theorem batch_stops_after_target_defect_counterexample:
  "fst (run_all_loop example_group [] [example_target ''10.0.0.1''] []
          (example_session [True] (gateway_ok @ hop_ok @ exit_ok @ hop_refused Hangup)))
     = Inr [(''10.0.0.1'', succeeded)]
   \<and> fst (run_target example_group (example_target ''10.0.0.2'') []
          (snd (run_all_loop example_group [] [example_target ''10.0.0.1''] []
                  (example_session [True] (gateway_ok @ hop_ok @ exit_ok @ hop_refused Hangup)))))
     = Inr refused
   \<and> fst (run_all_targets example_group []
          (example_session [True] (gateway_ok @ hop_ok @ exit_ok @ hop_refused Hangup)))
     = Inl GatewaySessionInactiveError
   \<and> regular_command (ssh_command (example_target ''10.0.0.3'')) SSH_TARGET_CONNECTION_EXITCODE False
        @ [CHR 0x0A]
     \<notin> set (sent (gateway (snd (run_all_targets example_group []
          (example_session [True] (gateway_ok @ hop_ok @ exit_ok @ hop_refused Hangup))))))"
  by code_simp

theorem target_defect_does_not_stop_batch_witness:
  "fst (run_all_targets example_group []
      (example_session [True, True]
         (gateway_ok @ hop_ok @ exit_ok @ hop_refused Idle @ token_unset @ token_set
          @ gateway_ok @ hop_ok @ exit_ok)))
   = Inr [(''10.0.0.1'', succeeded), (''10.0.0.2'', refused), (''10.0.0.3'', succeeded)]
   \<and> (\<exists>failed.
         \<not> success failed
       \<and> error failed = Some (TargetSSHConnectionError (SshDidNotReachPrompt 255 no_route))
       \<and> map fst [(''10.0.0.1'', succeeded), (''10.0.0.2'', refused), (''10.0.0.3'', succeeded)]
           = map host (targets example_group)
       \<and> length [(''10.0.0.1'', succeeded), (''10.0.0.2'', refused), (''10.0.0.3'', succeeded)]
           = length (targets example_group)
       \<and> map_of [(''10.0.0.1'', succeeded), (''10.0.0.2'', refused), (''10.0.0.3'', succeeded)]
            (host (example_target ''10.0.0.2'')) = Some failed)"
proof -
  let ?s = "example_session [True, True]
         (gateway_ok @ hop_ok @ exit_ok @ hop_refused Idle @ token_unset @ token_set
          @ gateway_ok @ hop_ok @ exit_ok)"
  let ?final = "[(''10.0.0.1'', succeeded), (''10.0.0.2'', refused), (''10.0.0.3'', succeeded)]"
  let ?pre = "run_all_loop example_group [] [example_target ''10.0.0.1''] [] ?s"
  let ?body = "run_target_body example_group (example_target ''10.0.0.2'') [] (snd ?pre)"
  let ?e = "TargetSSHConnectionError (SshDidNotReachPrompt 255 no_route)"
  let ?reset = "session_close (snd ?body)"
  have 1: "targets example_group
      = [example_target ''10.0.0.1''] @ example_target ''10.0.0.2'' # [example_target ''10.0.0.3'']"
    by (simp add: example_group_def)
  have 2: "distinct (map host (targets example_group))" by code_simp
  have 3: "list_all is_command_or_script []" by simp
  have "fst ?pre = Inr [(''10.0.0.1'', succeeded)]" by code_simp
  then have 4: "?pre = (Inr [(''10.0.0.1'', succeeded)], snd ?pre)" by (rule pair_fstI)
  have "fst ?body = Inl (?e, [])" by code_simp
  then have 5: "?body = (Inl (?e, []), snd ?body)" by (rule pair_fstI)
  have 6: "?e = CommandTimeoutError \<or> ?e = ExitCodeNotFoundError \<or> ?e = TargetSessionInactiveError
         \<or> (\<exists>x. ?e = TargetSSHConnectionError x)" by simp
  have "fst ?reset = Inr ()" by code_simp
  then have "?reset = (Inr (), snd ?reset)" by (rule pair_fstI)
  then have 7: "if ?e = TargetSessionInactiveError \<or> (\<exists>x. ?e = TargetSSHConnectionError x)
         then ?reset = (Inr (), snd ?reset) else snd ?reset = snd ?body" by simp
  have e: "fst (run_all_targets example_group [] ?s) = Inr ?final" by code_simp
  then have r: "run_all_targets example_group [] ?s
      = (Inr ?final, snd (run_all_targets example_group [] ?s))" by (rule pair_fstI)
  have w: "\<exists>failed. A failed \<and> B failed \<and> C failed \<and> D failed
              \<and> (\<forall>final s3. R = (Inr final, s3) \<longrightarrow> P final \<and> Q final \<and> M final failed)
           \<Longrightarrow> R = (Inr F, S)
           \<Longrightarrow> \<exists>failed. B failed \<and> C failed \<and> P F \<and> Q F \<and> M F failed"
    for A B C D :: "TargetExecutionResult \<Rightarrow> bool"
      and R :: "(error + (string \<times> TargetExecutionResult) list) \<times> session"
      and P Q M F S
    by blast
  from target_defect_does_not_stop_batch [OF 1 2 3 4 5 6 7]
  have "\<exists>failed.
         \<not> success failed \<and> error failed = Some ?e
       \<and> map fst ?final = map host (targets example_group)
       \<and> length ?final = length (targets example_group)
       \<and> map_of ?final (host (example_target ''10.0.0.2'')) = Some failed"
    by (rule w [OF _ r])
  with e show ?thesis by (rule conjI)
qed

end
